theory Spec2Isabelle
  imports Main "HOL-Library.AList"
begin

section \<open>The create command of the command line (iocage/cli/create.py)\<close>

subsection \<open>Values, collaborators and the observable run\<close>

text \<open>
  \<^verbatim>\<open>jail_data\<close> is a Python dict from property names to text or to \<^verbatim>\<open>True\<close>.
  A dict keeps insertion order and an assignment to a present key replaces the value in
  place, which is what \<open>AList.update\<close> does on an association list.
\<close>

datatype pyval = PStr string | PBool bool

type_synonym jail_data = "(string \<times> pyval) list"

text \<open>
  The source of a new jail: a \<^verbatim>\<open>ReleaseGenerator\<close> built from a release name or a
  \<^verbatim>\<open>JailGenerator\<close> built from a template name.
\<close>

datatype resource = Release string | Template string

fun resource_name :: "resource \<Rightarrow> string" where
  "resource_name (Release r) = r"
| "resource_name (Template t) = t"

text \<open>
  What a call into the library does: it returns, or it raises an exception that is an
  \<^verbatim>\<open>iocage.lib.errors.IocageException\<close>, or it raises some other exception.
\<close>

datatype raised = IocageException | OtherException

datatype call_result = Returns | Raises raised

text \<open>The two choices of \<^verbatim>\<open>--basejail-type\<close> (a \<^verbatim>\<open>click.Choice\<close>).\<close>

datatype basejail_kind = nullfs | zfs

fun basejail_kind_text :: "basejail_kind \<Rightarrow> string" where
  "basejail_kind_text nullfs = ''nullfs''"
| "basejail_kind_text zfs = ''zfs''"

text \<open>
  The texts handed to the logger, one constructor per message of the source, carrying the
  values the f-string interpolates. The suffix of the two per-unit messages is
  \<^verbatim>\<open>f" ({i}/{count})" if count > 1 else ""\<close>: \<open>Some (i, count)\<close> or \<open>None\<close>.
\<close>

datatype message =
    NotAValidInteger string
  | NoReleaseSelected string
  | ReleaseDoesNotExist string
  | ReleaseNotDownloaded string
  | AutomaticallyFetching
  | NoReleaseOrJailSelected
  | BasejailTypeWithoutBasejail
  | InvalidProperty string
  | SuccessfullyCreated string string "(nat \<times> int) option"
  | CouldNotBeCreated string "(nat \<times> int) option"

datatype level = spam | log | warn | error

text \<open>
  A run is observed through the calls it makes on its collaborators, in order: logger
  calls, the construction of the source, \<^verbatim>\<open>resource.fetch()\<close>, the construction of
  each new jail from \<^verbatim>\<open>jail_data\<close> and each \<^verbatim>\<open>jail.create(resource)\<close>.
\<close>

datatype event =
    Logged level message
  | NewReleaseGenerator string
  | NewTemplateJail string
  | Fetch string
  | NewJail nat jail_data
  | JailCreate nat resource

text \<open>
  How the command ends: \<^verbatim>\<open>exit(n)\<close>, or an exception that nothing catches leaves
  \<^verbatim>\<open>cli\<close>.
\<close>

datatype ending = Exit int | Uncaught raised

text \<open>
  The library classes (\<^verbatim>\<open>Host\<close>, \<^verbatim>\<open>ReleaseGenerator\<close>, \<^verbatim>\<open>JailGenerator\<close>) are
  not part of the two files; what the command reads from them is a parameter of the model:
  the host's release version, whether a release is fetched and whether it is available,
  what \<^verbatim>\<open>resource.fetch()\<close> does, the display name of the \<open>i\<close>-th jail built from
  some \<^verbatim>\<open>jail_data\<close>, and what \<^verbatim>\<open>jail.create(resource)\<close> does for the \<open>i\<close>-th unit.
\<close>

record env =
  host_release_version :: string
  fetched :: "string \<Rightarrow> bool"
  available :: "string \<Rightarrow> bool"
  fetch :: "string \<Rightarrow> call_result"
  humanreadable_name :: "nat \<Rightarrow> jail_data \<Rightarrow> string"
  create :: "nat \<Rightarrow> call_result"

text \<open>The arguments of \<^verbatim>\<open>cli\<close>, as click hands them over.\<close>

record request =
  release :: "string option"
  template :: "string option"
  count :: int
  props :: "string list"
  pkglist :: "string option"
  basejail :: bool
  basejail_type :: "basejail_kind option"
  empty :: bool
  name :: "string option"
  no_fetch :: bool
  force :: bool

subsection \<open>\<^verbatim>\<open>validate_count\<close>\<close>


definition py_isdigit :: "char \<Rightarrow> bool" where
  "py_isdigit c = (48 \<le> (of_char c :: nat) \<and> (of_char c :: nat) \<le> 57)"

definition digit_value :: "char \<Rightarrow> nat" where
  "digit_value c = (of_char c :: nat) - 48"







subsection \<open>\<^verbatim>\<open>cli\<close>\<close>

text \<open>
  Lines 91 to 96: with neither a release nor a template, the host's release version is
  the release.
\<close>

definition default_release :: "env \<Rightarrow> request \<Rightarrow> event list \<times> string option" where
  "default_release e rq =
     (if release rq = None \<and> template rq = None
      then ([Logged spam (NoReleaseSelected (host_release_version e))],
            Some (host_release_version e))
      else ([], release rq))"

text \<open>Lines 98 and 99: \<^verbatim>\<open>if name:\<close> holds for a name that is given and not empty.\<close>

definition set_name :: "string option \<Rightarrow> jail_data \<Rightarrow> jail_data" where
  "set_name n jd =
     (case n of
        None \<Rightarrow> jd
      | Some t \<Rightarrow> if t \<noteq> [] then AList.update ''name'' (PStr t) jd else jd)"

text \<open>
  Lines 101 to 135: the source. The release is looked at first; the template only when
  there is no release.
\<close>

definition select_resource ::
  "env \<Rightarrow> string option \<Rightarrow> string option \<Rightarrow> bool \<Rightarrow> event list \<times> (ending + resource)" where
  "select_resource e rel tmpl nf =
     (case rel of
        Some r \<Rightarrow>
          if \<not> fetched e r then
            if \<not> available e r then
              ([NewReleaseGenerator r, Logged error (ReleaseDoesNotExist r)], Inl (Exit 1))
            else if nf then
              ([NewReleaseGenerator r, Logged error (ReleaseNotDownloaded r)], Inl (Exit 1))
            else
              ([NewReleaseGenerator r, Logged spam (ReleaseNotDownloaded r),
                Logged log AutomaticallyFetching, Fetch r],
               case fetch e r of
                 Returns \<Rightarrow> Inr (Release r)
               | Raises x \<Rightarrow> Inl (Uncaught x))
          else ([NewReleaseGenerator r], Inr (Release r))
      | None \<Rightarrow>
          (case tmpl of
             Some t \<Rightarrow> ([NewTemplateJail t], Inr (Template t))
           | None \<Rightarrow> ([Logged error NoReleaseOrJailSelected], Inl (Exit 1))))"

text \<open>Lines 137 to 145: the basejail flag and the basejail type.\<close>

definition set_basejail ::
  "bool \<Rightarrow> basejail_kind option \<Rightarrow> jail_data \<Rightarrow> event list \<times> (ending + jail_data)" where
  "set_basejail b bt jd =
     (let jd1 = (if b then AList.update ''basejail'' (PBool True) jd else jd) in
      case bt of
        None \<Rightarrow> ([], Inr jd1)
      | Some k \<Rightarrow>
          if \<not> b then ([Logged error BasejailTypeWithoutBasejail], Inl (Exit 1))
          else ([], Inr (AList.update ''basejail_type'' (PStr (basejail_kind_text k)) jd1)))"

text \<open>
  Line 150: \<^verbatim>\<open>prop.split("=", maxsplit=1)\<close> cuts at the first \<^verbatim>\<open>=\<close>, or gives the
  whole text as the only part when there is none.
\<close>

definition split_first :: "char \<Rightarrow> string \<Rightarrow> string list" where
  "split_first c s =
     (if c \<in> set s then [takeWhile (\<lambda>x. x \<noteq> c) s, tl (dropWhile (\<lambda>x. x \<noteq> c) s)]
      else [s])"

text \<open>
  Lines 147 to 154: the tokens in order. Unpacking one part into \<^verbatim>\<open>key, value\<close>
  raises \<^verbatim>\<open>ValueError\<close>, which is caught: the error is logged and the process exits
  with status 1.
\<close>

fun set_props :: "string list \<Rightarrow> jail_data \<Rightarrow> event list \<times> (ending + jail_data)" where
  "set_props [] jd = ([], Inr jd)"
| "set_props (prop # rest) jd =
     (case split_first CHR ''='' prop of
        [key, val] \<Rightarrow> set_props rest (AList.update key (PStr val) jd)
      | _ \<Rightarrow> ([Logged error (InvalidProperty prop)], Inl (Exit 1)))"

text \<open>
  Lines 157 to 176: the units \<open>is\<close> still to run. The flag \<^verbatim>\<open>errors\<close> is carried
  along as the loop has it in scope; no branch of the body assigns it. An exception of
  \<^verbatim>\<open>jail.create\<close> that is an \<^verbatim>\<open>IocageException\<close> is caught and the next unit
  runs; any other one leaves the loop.
\<close>

definition suffix :: "nat \<Rightarrow> int \<Rightarrow> (nat \<times> int) option" where
  "suffix i n = (if n > 1 then Some (i, n) else None)"

fun create_units ::
  "env \<Rightarrow> resource \<Rightarrow> jail_data \<Rightarrow> int \<Rightarrow> bool \<Rightarrow> nat list \<Rightarrow> event list \<times> (raised + bool)" where
  "create_units e res jd n errors [] = ([], Inr errors)"
| "create_units e res jd n errors (i # is) =
     (let jail = humanreadable_name e i jd in
      case create e i of
        Returns \<Rightarrow>
          (let (tr, r) = create_units e res jd n errors is in
           ([NewJail i jd, JailCreate i res,
             Logged log (SuccessfullyCreated jail (resource_name res) (suffix i n))] @ tr, r))
      | Raises IocageException \<Rightarrow>
          (let (tr, r) = create_units e res jd n errors is in
           ([NewJail i jd, JailCreate i res,
             Logged warn (CouldNotBeCreated jail (suffix i n))] @ tr, r))
      | Raises OtherException \<Rightarrow>
          ([NewJail i jd, JailCreate i res], Inl OtherException))"

text \<open>
  Lines 156 to 178: \<^verbatim>\<open>errors = False\<close>, the loop over \<^verbatim>\<open>range(count)\<close> and
  \<^verbatim>\<open>exit(int(errors))\<close>.
\<close>

definition create_all :: "env \<Rightarrow> resource \<Rightarrow> jail_data \<Rightarrow> int \<Rightarrow> event list \<times> ending" where
  "create_all e res jd n =
     (case create_units e res jd n False [0..<nat n] of
        (tr, Inl x) \<Rightarrow> (tr, Uncaught x)
      | (tr, Inr errors) \<Rightarrow> (tr, Exit (if errors then 1 else 0)))"

text \<open>
  Lines 85 to 154 of \<^verbatim>\<open>cli\<close>: everything before the loop. It ends the command, or
  it leaves the source and the \<^verbatim>\<open>jail_data\<close> the loop works with. The count is not
  read here.
\<close>

definition prepare :: "env \<Rightarrow> request \<Rightarrow> event list \<times> (ending + resource \<times> jail_data)" where
  "prepare e rq =
     (let (tr0, rel) = default_release e rq;
          jd0 = set_name (name rq) []
      in case select_resource e rel (template rq) (no_fetch rq) of
           (tr1, Inl stop) \<Rightarrow> (tr0 @ tr1, Inl stop)
         | (tr1, Inr res) \<Rightarrow>
             (case set_basejail (basejail rq) (basejail_type rq) jd0 of
                (tr2, Inl stop) \<Rightarrow> (tr0 @ tr1 @ tr2, Inl stop)
              | (tr2, Inr jd1) \<Rightarrow>
                  (case set_props (props rq) jd1 of
                     (tr3, Inl stop) \<Rightarrow> (tr0 @ tr1 @ tr2 @ tr3, Inl stop)
                   | (tr3, Inr jd2) \<Rightarrow> (tr0 @ tr1 @ tr2 @ tr3, Inr (res, jd2)))))"

text \<open>The body of \<^verbatim>\<open>cli\<close>, lines 85 to 178.\<close>

definition cli :: "env \<Rightarrow> request \<Rightarrow> event list \<times> ending" where
  "cli e rq =
     (case prepare e rq of
        (tr, Inl stop) \<Rightarrow> (tr, stop)
      | (tr, Inr (res, jd)) \<Rightarrow>
          (let (tr4, stop) = create_all e res jd (count rq) in (tr @ tr4, stop)))"


subsection \<open>Reading a run\<close>

text \<open>
  The command keeps no list of results: what it reports for a unit is the message it
  logs after \<^verbatim>\<open>jail.create\<close>, a success at level \<^verbatim>\<open>log\<close> or a failure at level
  \<^verbatim>\<open>warn\<close>, with the display name and the suffix. \<open>outcomes\<close> reads these reports
  off a run in order.
\<close>

datatype outcome =
    Success string "(nat \<times> int) option"
  | Failure string "(nat \<times> int) option"

fun outcomes :: "event list \<Rightarrow> outcome list" where
  "outcomes [] = []"
| "outcomes (Logged log (SuccessfullyCreated j r sf) # tr) = Success j sf # outcomes tr"
| "outcomes (Logged warn (CouldNotBeCreated j sf) # tr) = Failure j sf # outcomes tr"
| "outcomes (ev # tr) = outcomes tr"

text \<open>The report the loop makes for unit \<open>i\<close> when \<^verbatim>\<open>jail.create\<close> does not leave it.\<close>

definition unit_outcome :: "env \<Rightarrow> jail_data \<Rightarrow> int \<Rightarrow> nat \<Rightarrow> outcome" where
  "unit_outcome e jd n i =
     (if create e i = Returns then Success (humanreadable_name e i jd) (suffix i n)
      else Failure (humanreadable_name e i jd) (suffix i n))"

text \<open>The kinds of calls counted in a run.\<close>

fun is_resolution :: "event \<Rightarrow> bool" where
  "is_resolution (NewReleaseGenerator r) = True"
| "is_resolution (NewTemplateJail t) = True"
| "is_resolution ev = False"

fun is_fetch :: "event \<Rightarrow> bool" where
  "is_fetch (Fetch r) = True"
| "is_fetch ev = False"

fun is_unit_event :: "event \<Rightarrow> bool" where
  "is_unit_event (NewJail i jd) = True"
| "is_unit_event (JailCreate i res) = True"
| "is_unit_event ev = False"

fun unit_of :: "event \<Rightarrow> nat option" where
  "unit_of (NewJail i jd) = Some i"
| "unit_of (JailCreate i res) = Some i"
| "unit_of ev = None"

text \<open>The value of a text of decimal digits, most significant digit first.\<close>

definition decimal :: "string \<Rightarrow> nat" where
  "decimal ds = foldl (\<lambda>a c. a * 10 + digit_value c) 0 ds"

text \<open>
  Collaborators and requests used as concrete inputs: a host on \<^verbatim>\<open>11.1-RELEASE\<close>
  whose releases are all fetched, where every call returns and jail \<open>i\<close> is displayed
  as \<^verbatim>\<open>jail\<close> followed by as many \<^verbatim>\<open>i\<close> as its index; and the request of a bare
  \<^verbatim>\<open>create\<close>.
\<close>

definition env0 :: env where
  "env0 = \<lparr>host_release_version = ''11.1-RELEASE'',
            fetched = (\<lambda>r. True),
            available = (\<lambda>r. True),
            fetch = (\<lambda>r. Returns),
            humanreadable_name = (\<lambda>i jd. ''jail'' @ replicate i CHR ''i''),
            create = (\<lambda>i. Returns)\<rparr>"

definition request0 :: request where
  "request0 = \<lparr>release = None, template = None, count = 1, props = [], pkglist = None,
                basejail = False, basejail_type = None, empty = False, name = None,
                no_fetch = False, force = False\<rparr>"

section \<open>The JSON configuration file (libiocage/lib/Config/Type/JSON.py)\<close>

text \<open>
  \<^verbatim>\<open>ConfigJSON\<close> has two methods: \<^verbatim>\<open>map_input\<close> is \<^verbatim>\<open>json.load\<close> of the Python
  library and \<^verbatim>\<open>map_output\<close> is \<^verbatim>\<open>libiocage.lib.helpers.to_json\<close>. The data is a
  flat dict from property names to values; the values the store holds are text, booleans
  and integers. As for \<^verbatim>\<open>jail_data\<close>, the dict is an association list in insertion
  order.
\<close>

datatype property_value = VString string | VBool bool | VInt int

type_synonym property_store = "(string \<times> property_value) list"

subsection \<open>\<^verbatim>\<open>to_json\<close>\<close>

text \<open>
  \<^verbatim>\<open>libiocage.lib.helpers.to_json\<close>, which \<^verbatim>\<open>map_output\<close> calls, is not among the
  source files. The spec gives the persisted format as a JSON document, a flat object from
  property names to values, and the definitions of this subsection write that document
  the way \<^verbatim>\<open>json.dumps\<close> writes such an object.
\<close>

text \<open>
  Modelled from the spec: a string of the document \<^verbatim>\<open>to_json\<close> writes. It stands
  between double quotes; the quote and the backslash are escaped, line feed, carriage
  return, tab, backspace and form feed have their short escapes, and any other character
  outside the range from space to tilde is written \<^verbatim>\<open>\u00XX\<close> with two hexadecimal
  digits in lower case.
\<close>

definition hex_digit :: "nat \<Rightarrow> char" where
  "hex_digit n = (if n < 10 then char_of (48 + n) else char_of (87 + n))"

definition escape_char :: "char \<Rightarrow> string" where
  "escape_char c =
     (if c = CHR 0x22 then [CHR 0x5C, CHR 0x22]
      else if c = CHR 0x5C then [CHR 0x5C, CHR 0x5C]
      else if c = CHR 0x0A then [CHR 0x5C, CHR ''n'']
      else if c = CHR 0x0D then [CHR 0x5C, CHR ''r'']
      else if c = CHR 0x09 then [CHR 0x5C, CHR ''t'']
      else if c = CHR 0x08 then [CHR 0x5C, CHR ''b'']
      else if c = CHR 0x0C then [CHR 0x5C, CHR ''f'']
      else if 32 \<le> (of_char c :: nat) \<and> (of_char c :: nat) \<le> 126 then [c]
      else [CHR 0x5C, CHR ''u'', CHR ''0'', CHR ''0'',
            hex_digit ((of_char c :: nat) div 16), hex_digit ((of_char c :: nat) mod 16)])"

definition encode_string :: "string \<Rightarrow> string" where
  "encode_string s = CHR 0x22 # concat (map escape_char s) @ [CHR 0x22]"

text \<open>Modelled from the spec: an integer of the document \<^verbatim>\<open>to_json\<close> writes, in decimal.\<close>

fun show_nat :: "nat \<Rightarrow> string" where
  "show_nat n =
     (if n < 10 then [char_of (48 + n)] else show_nat (n div 10) @ [char_of (48 + n mod 10)])"

declare show_nat.simps [simp del]

definition show_int :: "int \<Rightarrow> string" where
  "show_int i = (if i < 0 then CHR ''-'' # show_nat (nat (- i)) else show_nat (nat i))"

text \<open>
  Modelled from the spec: a value of the document \<^verbatim>\<open>to_json\<close> writes, and its members:
  name and value with a colon and a space between them, the members separated by a comma
  and a space.
\<close>

fun encode_value :: "property_value \<Rightarrow> string" where
  "encode_value (VString s) = encode_string s"
| "encode_value (VBool b) = (if b then ''true'' else ''false'')"
| "encode_value (VInt i) = show_int i"

fun encode_members :: "property_store \<Rightarrow> string" where
  "encode_members [] = []"
| "encode_members [(k, v)] = encode_string k @ '': '' @ encode_value v"
| "encode_members ((k, v) # m # ms) =
     encode_string k @ '': '' @ encode_value v @ '', '' @ encode_members (m # ms)"

text \<open>
  Modelled from the spec: \<^verbatim>\<open>libiocage.lib.helpers.to_json\<close>, missing from the source
  files: the flat object of the members between braces.
\<close>

definition to_json :: "property_store \<Rightarrow> string" where
  "to_json d = ''{'' @ encode_members d @ ''}''"

subsection \<open>\<^verbatim>\<open>json.load\<close>\<close>

text \<open>
  \<^verbatim>\<open>json.load\<close> on the documents that are a flat object of strings, booleans and
  integers, over characters below 256: white space between the tokens is skipped; a string
  ends at the first quote that is not escaped, a raw control character is refused, the
  escapes of JSON are decoded (a \<^verbatim>\<open>\u\<close> escape only below 256); an integer has no
  leading zero, and a fraction or an exponent after it makes a float, which is no value
  of the store; a name that comes twice keeps its last value. \<open>None\<close> stands for a text
  that is not such a document.
\<close>

definition hex_value :: "char \<Rightarrow> nat option" where
  "hex_value c =
     (let n = (of_char c :: nat) in
      if 48 \<le> n \<and> n \<le> 57 then Some (n - 48)
      else if 97 \<le> n \<and> n \<le> 102 then Some (n - 87)
      else if 65 \<le> n \<and> n \<le> 70 then Some (n - 55)
      else None)"

definition is_ws :: "char \<Rightarrow> bool" where
  "is_ws c = (c = CHR '' '' \<or> c = CHR 0x09 \<or> c = CHR 0x0A \<or> c = CHR 0x0D)"

definition skip_ws :: "string \<Rightarrow> string" where
  "skip_ws s = dropWhile is_ws s"

definition unescape :: "char \<Rightarrow> char option" where
  "unescape e =
     (if e = CHR 0x22 then Some (CHR 0x22)
      else if e = CHR 0x5C then Some (CHR 0x5C)
      else if e = CHR ''/'' then Some (CHR ''/'')
      else if e = CHR ''b'' then Some (CHR 0x08)
      else if e = CHR ''f'' then Some (CHR 0x0C)
      else if e = CHR ''n'' then Some (CHR 0x0A)
      else if e = CHR ''r'' then Some (CHR 0x0D)
      else if e = CHR ''t'' then Some (CHR 0x09)
      else None)"

definition unicode_escape :: "char \<Rightarrow> char \<Rightarrow> char \<Rightarrow> char \<Rightarrow> char option" where
  "unicode_escape a b c d =
     (case (hex_value a, hex_value b, hex_value c, hex_value d) of
        (Some h1, Some h2, Some h3, Some h4) \<Rightarrow>
          (let n = ((h1 * 16 + h2) * 16 + h3) * 16 + h4
           in if n < 256 then Some (char_of n) else None)
      | _ \<Rightarrow> None)"

fun scan_string :: "string \<Rightarrow> (string \<times> string) option" where
  "scan_string [] = None"
| "scan_string (c # cs) =
     (if c = CHR 0x22 then Some ([], cs)
      else if c = CHR 0x5C then
        (case cs of
           [] \<Rightarrow> None
         | e # r \<Rightarrow>
             if e = CHR ''u'' then
               (case r of
                  h1 # h2 # h3 # h4 # r' \<Rightarrow>
                    (case unicode_escape h1 h2 h3 h4 of
                       None \<Rightarrow> None
                     | Some x \<Rightarrow> map_option (\<lambda>(s, t). (x # s, t)) (scan_string r'))
                | _ \<Rightarrow> None)
             else
               (case unescape e of
                  None \<Rightarrow> None
                | Some x \<Rightarrow> map_option (\<lambda>(s, t). (x # s, t)) (scan_string r)))
      else if (of_char c :: nat) < 32 then None
      else map_option (\<lambda>(s, t). (c # s, t)) (scan_string cs))"

definition scan_nat :: "string \<Rightarrow> (nat \<times> string) option" where
  "scan_nat s =
     (let ds = takeWhile py_isdigit s; r = dropWhile py_isdigit s in
      if ds = [] then None
      else if hd ds = CHR ''0'' \<and> length ds > 1 then None
      else (case r of
              [] \<Rightarrow> Some (decimal ds, r)
            | c # _ \<Rightarrow>
                if c = CHR ''.'' \<or> c = CHR ''e'' \<or> c = CHR ''E'' then None
                else Some (decimal ds, r)))"

definition scan_number :: "string \<Rightarrow> (int \<times> string) option" where
  "scan_number s =
     (case s of
        [] \<Rightarrow> None
      | c # r \<Rightarrow>
          if c = CHR ''-'' then map_option (\<lambda>(n, t). (- int n, t)) (scan_nat r)
          else map_option (\<lambda>(n, t). (int n, t)) (scan_nat s))"

definition scan_value :: "string \<Rightarrow> (property_value \<times> string) option" where
  "scan_value s =
     (case s of
        [] \<Rightarrow> None
      | c # r \<Rightarrow>
          if c = CHR 0x22 then map_option (\<lambda>(x, t). (VString x, t)) (scan_string r)
          else if take 4 s = ''true'' then Some (VBool True, drop 4 s)
          else if take 5 s = ''false'' then Some (VBool False, drop 5 s)
          else map_option (\<lambda>(i, t). (VInt i, t)) (scan_number s))"

text \<open>
  The members of the object, from the opening quote of a name on. The test on the lengths
  before the recursive call only makes the recursion well founded: what is left after a
  member is always shorter.
\<close>

fun scan_members :: "property_store \<Rightarrow> string \<Rightarrow> (property_store \<times> string) option" where
  "scan_members acc s =
     (case s of
        [] \<Rightarrow> None
      | q # r \<Rightarrow>
          if q \<noteq> CHR 0x22 then None
          else
            (case scan_string r of
               None \<Rightarrow> None
             | Some (k, r1) \<Rightarrow>
                 (case skip_ws r1 of
                    [] \<Rightarrow> None
                  | c # r2 \<Rightarrow>
                      if c \<noteq> CHR '':'' then None
                      else
                        (case scan_value (skip_ws r2) of
                           None \<Rightarrow> None
                         | Some (v, r3) \<Rightarrow>
                             (case skip_ws r3 of
                                [] \<Rightarrow> None
                              | d # r4 \<Rightarrow>
                                  if d = CHR ''}'' then Some (AList.update k v acc, r4)
                                  else if d = CHR '','' then
                                    (if length (skip_ws r4) < length s
                                     then scan_members (AList.update k v acc) (skip_ws r4)
                                     else None)
                                  else None)))))"

definition json_load :: "string \<Rightarrow> property_store option" where
  "json_load s =
     (case skip_ws s of
        [] \<Rightarrow> None
      | b # r \<Rightarrow>
          if b \<noteq> CHR ''{'' then None
          else
            (case skip_ws r of
               [] \<Rightarrow> None
             | c # r' \<Rightarrow>
                 if c = CHR ''}'' then (if skip_ws r' = [] then Some [] else None)
                 else
                   (case scan_members [] (c # r') of
                      None \<Rightarrow> None
                    | Some (d, t) \<Rightarrow> if skip_ws t = [] then Some d else None)))"

subsection \<open>\<^verbatim>\<open>ConfigJSON\<close>\<close>

text \<open>Lines 37 to 41: the two methods of the class.\<close>

definition map_input :: "string \<Rightarrow> property_store option" where
  "map_input data = json_load data"

definition map_output :: "property_store \<Rightarrow> string" where
  "map_output data = to_json data"

text \<open>What may follow a number in the text \<open>to_json\<close> writes: nothing, a comma or the closing brace.\<close>

definition ends_number :: "string \<Rightarrow> bool" where
  "ends_number rest = (case rest of [] \<Rightarrow> True | c # _ \<Rightarrow> c = CHR '','' \<or> c = CHR ''}'')"

section \<open>Properties of the create command\<close>

subsection \<open>The loop over the units\<close>

lemma outcomes_append: "outcomes (a @ b) = outcomes a @ outcomes b"
  by (induction a rule: outcomes.induct) simp_all

lemma create_units_ending:
  "\<forall>i\<in>set is. create e i \<noteq> Raises OtherException \<Longrightarrow>
   snd (create_units e res jd n b is) = Inr b"
proof (induction "is")
  case Nil
  then show ?case by simp
next
  case (Cons i "is")
  then have "create e i \<noteq> Raises OtherException" and "snd (create_units e res jd n b is) = Inr b"
    by simp_all
  then show ?case
    by (cases "create e i"; cases "create_units e res jd n b is")
       (auto split: raised.splits)
qed

lemma create_units_outcomes:
  "\<forall>i\<in>set is. create e i \<noteq> Raises OtherException \<Longrightarrow>
   outcomes (fst (create_units e res jd n b is)) = map (unit_outcome e jd n) is"
proof (induction "is")
  case Nil
  then show ?case by simp
next
  case (Cons i "is")
  then have "create e i \<noteq> Raises OtherException"
    and "outcomes (fst (create_units e res jd n b is)) = map (unit_outcome e jd n) is"
    by simp_all
  then show ?case
    by (cases "create e i"; cases "create_units e res jd n b is")
       (auto simp: unit_outcome_def split: raised.splits)
qed

lemma create_units_attempts:
  "\<forall>i\<in>set is. create e i \<noteq> Raises OtherException \<Longrightarrow> i \<in> set is \<Longrightarrow>
   NewJail i jd \<in> set (fst (create_units e res jd n b is)) \<and>
   JailCreate i res \<in> set (fst (create_units e res jd n b is))"
proof (induction "is")
  case Nil
  then show ?case by simp
next
  case (Cons k "is")
  then show ?case
    by (cases "create e k"; cases "create_units e res jd n b is")
       (auto split: raised.splits)
qed

lemma create_units_other:
  "create e i = Raises OtherException \<Longrightarrow> i \<in> set is \<Longrightarrow>
   snd (create_units e res jd n b is) = Inl OtherException"
proof (induction "is")
  case Nil
  then show ?case by simp
next
  case (Cons k "is")
  then show ?case
    by (cases "create e k"; cases "create_units e res jd n b is")
       (auto split: raised.splits)
qed

lemma create_units_stops:
  "create e i = Raises OtherException \<Longrightarrow>
   ev \<in> set (fst (create_units e res jd n b (xs @ i # ys))) \<Longrightarrow> unit_of ev = Some j \<Longrightarrow>
   j \<in> set xs \<or> j = i"
proof (induction xs)
  case Nil
  then show ?case by auto
next
  case (Cons k xs)
  then show ?case
    by (cases "create e k"; cases "create_units e res jd n b (xs @ i # ys)")
       (auto split: raised.splits)
qed

lemma create_units_stops_outcomes:
  "create e i = Raises OtherException \<Longrightarrow>
   length (outcomes (fst (create_units e res jd n b (xs @ i # ys)))) \<le> length xs"
proof (induction xs)
  case Nil
  then show ?case by auto
next
  case (Cons k xs)
  then show ?case
    by (cases "create e k"; cases "create_units e res jd n b (xs @ i # ys)")
       (auto split: raised.splits)
qed

lemma create_units_no_source_events:
  "filter is_resolution (fst (create_units e res jd n b is)) = [] \<and>
   filter is_fetch (fst (create_units e res jd n b is)) = []"
proof (induction "is")
  case Nil
  then show ?case by simp
next
  case (Cons k "is")
  then show ?case
    by (cases "create e k"; cases "create_units e res jd n b is")
       (auto split: raised.splits)
qed

lemma create_units_jail_data:
  "NewJail i jd' \<in> set (fst (create_units e res jd n b is)) \<Longrightarrow> jd' = jd"
proof (induction "is")
  case Nil
  then show ?case by simp
next
  case (Cons k "is")
  then show ?case
    by (cases "create e k"; cases "create_units e res jd n b is")
       (auto split: raised.splits)
qed

subsection \<open>The steps before the loop\<close>

lemma set_props_quiet:
  "outcomes (fst (set_props ps jd)) = [] \<and>
   filter is_unit_event (fst (set_props ps jd)) = [] \<and>
   filter is_resolution (fst (set_props ps jd)) = [] \<and>
   filter is_fetch (fst (set_props ps jd)) = []"
  by (induction ps arbitrary: jd) (auto split: list.splits)

lemma set_basejail_quiet:
  "outcomes (fst (set_basejail b bt jd)) = [] \<and>
   filter is_unit_event (fst (set_basejail b bt jd)) = [] \<and>
   filter is_resolution (fst (set_basejail b bt jd)) = [] \<and>
   filter is_fetch (fst (set_basejail b bt jd)) = []"
  by (simp add: set_basejail_def Let_def split: option.splits)

lemma select_resource_quiet:
  "outcomes (fst (select_resource e rel tmpl nf)) = [] \<and>
   filter is_unit_event (fst (select_resource e rel tmpl nf)) = []"
  by (simp add: select_resource_def split: option.splits)

lemma default_release_quiet:
  "outcomes (fst (default_release e rq)) = [] \<and>
   filter is_unit_event (fst (default_release e rq)) = [] \<and>
   filter is_resolution (fst (default_release e rq)) = [] \<and>
   filter is_fetch (fst (default_release e rq)) = []"
  by (simp add: default_release_def)

lemma prepare_cases:
  obtains
    (source) tr1 stop where
      "select_resource e (snd (default_release e rq)) (template rq) (no_fetch rq) = (tr1, Inl stop)"
      "prepare e rq = (fst (default_release e rq) @ tr1, Inl stop)"
  | (basejail) tr1 res tr2 stop where
      "select_resource e (snd (default_release e rq)) (template rq) (no_fetch rq) = (tr1, Inr res)"
      "set_basejail (basejail rq) (basejail_type rq) (set_name (name rq) []) = (tr2, Inl stop)"
      "prepare e rq = (fst (default_release e rq) @ tr1 @ tr2, Inl stop)"
  | (props) tr1 res tr2 jd1 tr3 stop where
      "select_resource e (snd (default_release e rq)) (template rq) (no_fetch rq) = (tr1, Inr res)"
      "set_basejail (basejail rq) (basejail_type rq) (set_name (name rq) []) = (tr2, Inr jd1)"
      "set_props (props rq) jd1 = (tr3, Inl stop)"
      "prepare e rq = (fst (default_release e rq) @ tr1 @ tr2 @ tr3, Inl stop)"
  | (ready) tr1 res tr2 jd1 tr3 jd2 where
      "select_resource e (snd (default_release e rq)) (template rq) (no_fetch rq) = (tr1, Inr res)"
      "set_basejail (basejail rq) (basejail_type rq) (set_name (name rq) []) = (tr2, Inr jd1)"
      "set_props (props rq) jd1 = (tr3, Inr jd2)"
      "prepare e rq = (fst (default_release e rq) @ tr1 @ tr2 @ tr3, Inr (res, jd2))"
proof -
  obtain tr0 rel where d: "default_release e rq = (tr0, rel)"
    by (cases "default_release e rq")
  obtain tr1 r1 where s: "select_resource e rel (template rq) (no_fetch rq) = (tr1, r1)"
    by (cases "select_resource e rel (template rq) (no_fetch rq)")
  show thesis
  proof (cases r1)
    case (Inl stop)
    then show thesis using source [of tr1 stop] d s by (simp add: prepare_def)
  next
    case (Inr res)
    obtain tr2 r2 where
      b: "set_basejail (basejail rq) (basejail_type rq) (set_name (name rq) []) = (tr2, r2)"
      by (cases "set_basejail (basejail rq) (basejail_type rq) (set_name (name rq) [])")
    show thesis
    proof (cases r2)
      case (Inl stop)
      then show thesis using basejail [of tr1 res tr2 stop] d s b Inr by (simp add: prepare_def)
    next
      case jd: (Inr jd1)
      obtain tr3 r3 where p: "set_props (props rq) jd1 = (tr3, r3)"
        by (cases "set_props (props rq) jd1")
      show thesis
      proof (cases r3)
        case (Inl stop)
        then show thesis
          using props [of tr1 res tr2 jd1 tr3 stop] d s b p Inr jd by (simp add: prepare_def)
      next
        case (Inr jd2)
        then show thesis
          using ready [of tr1 res tr2 jd1 tr3 jd2] d s b p \<open>r1 = Inr res\<close> jd
          by (simp add: prepare_def)
      qed
    qed
  qed
qed

lemma prepare_quiet:
  "outcomes (fst (prepare e rq)) = [] \<and> filter is_unit_event (fst (prepare e rq)) = []"
proof (cases e rq rule: prepare_cases)
  case (source tr1 stop)
  then show ?thesis
    using select_resource_quiet [of e "snd (default_release e rq)" "template rq" "no_fetch rq"]
    by (simp add: outcomes_append default_release_quiet)
next
  case (basejail tr1 res tr2 stop)
  then show ?thesis
    using select_resource_quiet [of e "snd (default_release e rq)" "template rq" "no_fetch rq"]
      set_basejail_quiet [of "basejail rq" "basejail_type rq" "set_name (name rq) []"]
    by (simp add: outcomes_append default_release_quiet)
next
  case (props tr1 res tr2 jd1 tr3 stop)
  then show ?thesis
    using select_resource_quiet [of e "snd (default_release e rq)" "template rq" "no_fetch rq"]
      set_basejail_quiet [of "basejail rq" "basejail_type rq" "set_name (name rq) []"]
      set_props_quiet [of "props rq" jd1]
    by (simp add: outcomes_append default_release_quiet)
next
  case (ready tr1 res tr2 jd1 tr3 jd2)
  then show ?thesis
    using select_resource_quiet [of e "snd (default_release e rq)" "template rq" "no_fetch rq"]
      set_basejail_quiet [of "basejail rq" "basejail_type rq" "set_name (name rq) []"]
      set_props_quiet [of "props rq" jd1]
    by (simp add: outcomes_append default_release_quiet)
qed

lemma cli_prepared:
  "prepare e rq = (tr, Inr (res, jd)) \<Longrightarrow>
   cli e rq = (tr @ fst (create_units e res jd (count rq) False [0..<nat (count rq)]),
               case snd (create_units e res jd (count rq) False [0..<nat (count rq)]) of
                 Inl x \<Rightarrow> Uncaught x
               | Inr errors \<Rightarrow> Exit (if errors then 1 else 0))"
  by (cases "create_units e res jd (count rq) False [0..<nat (count rq)]")
     (simp add: cli_def create_all_def split: sum.splits)

lemma cli_stopped: "prepare e rq = (tr, Inl stop) \<Longrightarrow> cli e rq = (tr, stop)"
  by (simp add: cli_def)

lemma new_jail_prepared:
  assumes "NewJail i jd \<in> set (fst (cli e rq))"
  shows "\<exists>tr1 res tr2 jd1 tr3.
     select_resource e (snd (default_release e rq)) (template rq) (no_fetch rq) = (tr1, Inr res) \<and>
     set_basejail (basejail rq) (basejail_type rq) (set_name (name rq) []) = (tr2, Inr jd1) \<and>
     set_props (props rq) jd1 = (tr3, Inr jd)"
proof -
  have not_prep: "NewJail i jd \<notin> set (fst (prepare e rq))"
  proof
    assume "NewJail i jd \<in> set (fst (prepare e rq))"
    then have "NewJail i jd \<in> set (filter is_unit_event (fst (prepare e rq)))" by simp
    then show False using prepare_quiet [of e rq] by simp
  qed
  show ?thesis
  proof (cases e rq rule: prepare_cases)
    case (source tr1 stop)
    then show ?thesis using cli_stopped [of e rq] assms not_prep by simp
  next
    case (basejail tr1 res tr2 stop)
    then show ?thesis using cli_stopped [of e rq] assms not_prep by simp
  next
    case (props tr1 res tr2 jd1 tr3 stop)
    then show ?thesis using cli_stopped [of e rq] assms not_prep by simp
  next
    case (ready tr1 res tr2 jd1 tr3 jd2)
    then have "NewJail i jd \<in> set (fst (create_units e res jd2 (count rq) False [0..<nat (count rq)]))"
      using cli_prepared [of e rq _ res jd2] assms not_prep by auto
    then have "jd = jd2" by (rule create_units_jail_data)
    then show ?thesis using ready by blast
  qed
qed

lemma prepare_env0:
  "prepare (env0\<lparr>create := c\<rparr>) (request0\<lparr>count := n\<rparr>) =
     ([Logged spam (NoReleaseSelected ''11.1-RELEASE''), NewReleaseGenerator ''11.1-RELEASE''],
      Inr (Release ''11.1-RELEASE'', []))"
  by (simp add: prepare_def default_release_def set_name_def select_resource_def
        set_basejail_def env0_def request0_def)


subsection \<open>The exit status\<close>

text \<open>
  C1. The exit status is to be non-zero when at least one unit of the batch failed and zero
  when every unit succeeded. The command ends with \<^verbatim>\<open>exit(int(errors))\<close>, and
  \<^verbatim>\<open>errors\<close> is \<^verbatim>\<open>False\<close> from line 156 on: on a batch of one unit whose
  \<^verbatim>\<open>jail.create\<close> raises an \<^verbatim>\<open>IocageException\<close> the failure is logged as a
  warning and the exit status is 0.
\<close>

theorem failed_unit_exits_zero:
  "cli (env0\<lparr>create := (\<lambda>i. Raises IocageException)\<rparr>) (request0\<lparr>count := 1\<rparr>) =
     ([Logged spam (NoReleaseSelected ''11.1-RELEASE''), NewReleaseGenerator ''11.1-RELEASE'',
       NewJail 0 [], JailCreate 0 (Release ''11.1-RELEASE''),
       Logged warn (CouldNotBeCreated ''jail'' None)],
      Exit 0)"
  unfolding cli_def prepare_env0 by (simp add: create_all_def suffix_def env0_def)


subsection \<open>Failures of single units\<close>

text \<open>
  C2. A creation failure of a unit (an \<^verbatim>\<open>IocageException\<close> raised by its
  \<^verbatim>\<open>jail.create\<close>) is reported as a failure of that unit only, and the units after it
  are still attempted: when the steps before the loop let the request through and no unit
  raises anything but an \<^verbatim>\<open>IocageException\<close>, the reports of the run are, in order,
  one per unit \<open>0, \<dots>, count - 1\<close>, a success where \<^verbatim>\<open>jail.create\<close> returned and a
  failure where it raised, and every unit has been constructed and created. For a count
  of 3 with unit 1 failing the reports are success, failure, success.
\<close>

theorem batch_isolation:
  assumes "prepare e rq = (tr, Inr (res, jd))"
    and "\<forall>i<nat (count rq). create e i \<noteq> Raises OtherException"
  shows "outcomes (fst (cli e rq)) = map (unit_outcome e jd (count rq)) [0..<nat (count rq)] \<and>
         (\<forall>i<nat (count rq). NewJail i jd \<in> set (fst (cli e rq)) \<and>
                             JailCreate i res \<in> set (fst (cli e rq)))"
proof -
  let ?is = "[0..<nat (count rq)]"
  let ?loop = "create_units e res jd (count rq) False ?is"
  have ok: "\<forall>i\<in>set ?is. create e i \<noteq> Raises OtherException"
    using assms(2) by simp
  have tr: "fst (cli e rq) = tr @ fst ?loop"
    using cli_prepared [OF assms(1)] by simp
  have "outcomes tr = []"
    using prepare_quiet [of e rq] assms(1) by simp
  then have "outcomes (fst (cli e rq)) = map (unit_outcome e jd (count rq)) ?is"
    using create_units_outcomes [OF ok] by (simp add: tr outcomes_append)
  moreover have "\<forall>i<nat (count rq). NewJail i jd \<in> set (fst (cli e rq)) \<and>
                             JailCreate i res \<in> set (fst (cli e rq))"
    using create_units_attempts [OF ok] by (simp add: tr)
  ultimately show ?thesis by simp
qed


theorem batch_isolation_witness:
  "prepare (env0\<lparr>create := (\<lambda>i. if i = 1 then Raises IocageException else Returns)\<rparr>)
       (request0\<lparr>count := 3\<rparr>) =
     ([Logged spam (NoReleaseSelected ''11.1-RELEASE''), NewReleaseGenerator ''11.1-RELEASE''],
      Inr (Release ''11.1-RELEASE'', [])) \<and>
   create (env0\<lparr>create := (\<lambda>i. if i = 1 then Raises IocageException else Returns)\<rparr>) 1
     = Raises IocageException \<and>
   outcomes (fst (cli (env0\<lparr>create := (\<lambda>i. if i = 1 then Raises IocageException else Returns)\<rparr>)
       (request0\<lparr>count := 3\<rparr>))) =
     [Success ''jail'' (Some (0, 3)), Failure ''jaili'' (Some (1, 3)),
      Success ''jailii'' (Some (2, 3))]"
proof -
  let ?e = "env0\<lparr>create := (\<lambda>i. if i = 1 then Raises IocageException else Returns)\<rparr>"
  let ?rq = "request0\<lparr>count := 3\<rparr>"
  have p: "prepare ?e ?rq =
     ([Logged spam (NoReleaseSelected ''11.1-RELEASE''), NewReleaseGenerator ''11.1-RELEASE''],
      Inr (Release ''11.1-RELEASE'', []))"
    by (rule prepare_env0)
  have h: "\<forall>i<nat (count ?rq). create ?e i \<noteq> Raises OtherException"
    by simp
  have u: "[0..<nat (count ?rq)] = [0, 1, 2]"
    by (simp add: upt_conv_Cons)
  have "map (unit_outcome ?e [] (count ?rq)) [0..<nat (count ?rq)] =
     [Success ''jail'' (Some (0, 3)), Failure ''jaili'' (Some (1, 3)),
      Success ''jailii'' (Some (2, 3))]"
    unfolding u by (simp add: unit_outcome_def suffix_def env0_def eval_nat_numeral)
  then show ?thesis
    using batch_isolation [OF p h] p by simp
qed


text \<open>
  C10. The loop catches \<^verbatim>\<open>IocageException\<close> only. When \<^verbatim>\<open>jail.create\<close> of unit
  \<open>i\<close> raises any other exception, the command ends with that exception uncaught, no
  unit after \<open>i\<close> is constructed or created, and the run holds at most \<open>i\<close> reports
  (those of the units before \<open>i\<close>).
\<close>

theorem other_exception_leaves_the_loop:
  assumes "prepare e rq = (tr, Inr (res, jd))"
    and "i < nat (count rq)"
    and "create e i = Raises OtherException"
  shows "snd (cli e rq) = Uncaught OtherException \<and>
         (\<forall>ev\<in>set (fst (cli e rq)). \<forall>j. unit_of ev = Some j \<longrightarrow> j \<le> i) \<and>
         length (outcomes (fst (cli e rq))) \<le> i"
proof -
  let ?n = "nat (count rq)"
  have split: "[0..<?n] = [0..<i] @ i # [Suc i..<?n]"
  proof -
    have "[0..<i + (?n - i)] = [0..<i] @ [i..<i + (?n - i)]"
      by (rule upt_add_eq_append) simp
    then show ?thesis using assms(2) by (simp add: upt_conv_Cons)
  qed
  let ?loop = "create_units e res jd (count rq) False [0..<?n]"
  have tr: "fst (cli e rq) = tr @ fst ?loop"
    using cli_prepared [OF assms(1)] by simp
  have quiet: "outcomes tr = []" "filter is_unit_event tr = []"
    using prepare_quiet [of e rq] assms(1) by simp_all
  have "i \<in> set [0..<?n]" using assms(2) by simp
  then have "snd ?loop = Inl OtherException"
    using create_units_other [OF assms(3)] by blast
  then have a: "snd (cli e rq) = Uncaught OtherException"
    using cli_prepared [OF assms(1)] by simp
  have b: "\<forall>ev\<in>set (fst (cli e rq)). \<forall>j. unit_of ev = Some j \<longrightarrow> j \<le> i"
  proof (intro ballI allI impI)
    fix ev j
    assume ev: "ev \<in> set (fst (cli e rq))" and j: "unit_of ev = Some j"
    have "is_unit_event ev" using j by (cases ev) simp_all
    then have "ev \<notin> set tr"
      using quiet(2) by (metis filter_empty_conv)
    then have "ev \<in> set (fst ?loop)" using ev tr by simp
    then have "j \<in> set [0..<i] \<or> j = i"
      using create_units_stops [OF assms(3), of ev res jd "count rq" False "[0..<i]" "[Suc i..<?n]" j] j split
      by simp
    then show "j \<le> i" by auto
  qed
  have "length (outcomes (fst ?loop)) \<le> length [0..<i]"
    using create_units_stops_outcomes [OF assms(3), of res jd "count rq" False "[0..<i]" "[Suc i..<?n]"] split
    by simp
  then have c: "length (outcomes (fst (cli e rq))) \<le> i"
    using quiet(1) by (simp add: tr outcomes_append)
  show ?thesis using a b c by simp
qed

theorem other_exception_leaves_the_loop_witness:
  "prepare (env0\<lparr>create := (\<lambda>i. if i = 1 then Raises OtherException else Returns)\<rparr>)
       (request0\<lparr>count := 3\<rparr>) =
     ([Logged spam (NoReleaseSelected ''11.1-RELEASE''), NewReleaseGenerator ''11.1-RELEASE''],
      Inr (Release ''11.1-RELEASE'', [])) \<and>
   (1::nat) < nat (count (request0\<lparr>count := 3\<rparr>)) \<and>
   create (env0\<lparr>create := (\<lambda>i. if i = 1 then Raises OtherException else Returns)\<rparr>) 1
     = Raises OtherException \<and>
   snd (cli (env0\<lparr>create := (\<lambda>i. if i = 1 then Raises OtherException else Returns)\<rparr>)
       (request0\<lparr>count := 3\<rparr>)) = Uncaught OtherException \<and>
   NewJail 2 [] \<notin> set (fst (cli (env0\<lparr>create := (\<lambda>i. if i = 1 then Raises OtherException else Returns)\<rparr>)
       (request0\<lparr>count := 3\<rparr>))) \<and>
   JailCreate 2 (Release ''11.1-RELEASE'') \<notin>
     set (fst (cli (env0\<lparr>create := (\<lambda>i. if i = 1 then Raises OtherException else Returns)\<rparr>)
       (request0\<lparr>count := 3\<rparr>))) \<and>
   length (outcomes (fst (cli (env0\<lparr>create := (\<lambda>i. if i = 1 then Raises OtherException else Returns)\<rparr>)
       (request0\<lparr>count := 3\<rparr>)))) \<le> 1"
proof -
  let ?e = "env0\<lparr>create := (\<lambda>i. if i = 1 then Raises OtherException else Returns)\<rparr>"
  let ?rq = "request0\<lparr>count := 3\<rparr>"
  have p: "prepare ?e ?rq =
     ([Logged spam (NoReleaseSelected ''11.1-RELEASE''), NewReleaseGenerator ''11.1-RELEASE''],
      Inr (Release ''11.1-RELEASE'', []))"
    by (rule prepare_env0)
  have i: "(1::nat) < nat (count ?rq)" by simp
  have c: "create ?e 1 = Raises OtherException" by simp
  have "unit_of (NewJail 2 []) = Some 2" and "unit_of (JailCreate 2 (Release ''11.1-RELEASE'')) = Some 2"
    by simp_all
  then show ?thesis
    using other_exception_leaves_the_loop [OF p i c] p i c by fastforce
qed

subsection \<open>The source\<close>

lemma cli_trace_cases:
  obtains (stopped) stop where "cli e rq = (fst (prepare e rq), stop)"
  | (looped) res jd where
      "fst (cli e rq) =
         fst (prepare e rq) @ fst (create_units e res jd (count rq) False [0..<nat (count rq)])"
proof (cases "snd (prepare e rq)")
  case (Inl stop)
  then have "prepare e rq = (fst (prepare e rq), Inl stop)"
    by (metis prod.collapse)
  then show thesis using stopped cli_stopped by blast
next
  case (Inr p)
  then have "prepare e rq = (fst (prepare e rq), Inr (fst p, snd p))"
    by (metis prod.collapse)
  then show thesis using looped cli_prepared by (metis fst_conv)
qed

lemma select_resource_resolutions:
  "length (filter is_resolution
     (fst (select_resource e (snd (default_release e rq)) (template rq) nf))) = 1"
  by (cases "release rq"; cases "template rq")
     (simp_all add: select_resource_def default_release_def)

lemma select_resource_fetches:
  "length (filter is_fetch (fst (select_resource e rel tmpl nf))) \<le> 1"
  by (simp add: select_resource_def split: option.splits)

lemma prepare_source_events:
  "filter is_resolution (fst (prepare e rq)) =
     filter is_resolution
       (fst (select_resource e (snd (default_release e rq)) (template rq) (no_fetch rq))) \<and>
   filter is_fetch (fst (prepare e rq)) =
     filter is_fetch
       (fst (select_resource e (snd (default_release e rq)) (template rq) (no_fetch rq)))"
proof (cases e rq rule: prepare_cases)
  case (source tr1 stop)
  then show ?thesis by (simp add: default_release_quiet)
next
  case (basejail tr1 res tr2 stop)
  then show ?thesis
    using set_basejail_quiet [of "basejail rq" "basejail_type rq" "set_name (name rq) []"]
    by (simp add: default_release_quiet)
next
  case (props tr1 res tr2 jd1 tr3 stop)
  then show ?thesis
    using set_basejail_quiet [of "basejail rq" "basejail_type rq" "set_name (name rq) []"]
      set_props_quiet [of "props rq" jd1]
    by (simp add: default_release_quiet)
next
  case (ready tr1 res tr2 jd1 tr3 jd2)
  then show ?thesis
    using set_basejail_quiet [of "basejail rq" "basejail_type rq" "set_name (name rq) []"]
      set_props_quiet [of "props rq" jd1]
    by (simp add: default_release_quiet)
qed

lemma cli_source_events:
  "filter is_resolution (fst (cli e rq)) =
     filter is_resolution
       (fst (select_resource e (snd (default_release e rq)) (template rq) (no_fetch rq))) \<and>
   filter is_fetch (fst (cli e rq)) =
     filter is_fetch
       (fst (select_resource e (snd (default_release e rq)) (template rq) (no_fetch rq)))"
proof (cases e rq rule: cli_trace_cases)
  case (stopped stop)
  then show ?thesis using prepare_source_events [of e rq] by simp
next
  case (looped res jd)
  then show ?thesis
    using prepare_source_events [of e rq]
      create_units_no_source_events [of e res jd "count rq" False "[0..<nat (count rq)]"]
    by simp
qed

text \<open>
  C5. The source is resolved once in a run of the command and \<^verbatim>\<open>resource.fetch()\<close> is
  called at most once, whatever the count: every run constructs exactly one source (a
  \<^verbatim>\<open>ReleaseGenerator\<close> or the template's \<^verbatim>\<open>JailGenerator\<close>), and holds at most one
  fetch. When the release is not fetched but available and \<^verbatim>\<open>--no-fetch\<close> is not given,
  the run holds exactly one fetch, of that release; the witness takes a count of 5.
\<close>

theorem source_resolved_once:
  "length (filter is_resolution (fst (cli e rq))) = 1 \<and>
   length (filter is_fetch (fst (cli e rq))) \<le> 1 \<and>
   (snd (default_release e rq) = Some r \<and> \<not> fetched e r \<and> available e r \<and> \<not> no_fetch rq
      \<longrightarrow> filter is_fetch (fst (cli e rq)) = [Fetch r])"
proof -
  have "snd (default_release e rq) = Some r \<Longrightarrow> \<not> fetched e r \<Longrightarrow> available e r \<Longrightarrow>
        \<not> no_fetch rq \<Longrightarrow>
        filter is_fetch
          (fst (select_resource e (snd (default_release e rq)) (template rq) (no_fetch rq))) =
        [Fetch r]"
    by (simp add: select_resource_def)
  then show ?thesis
    using cli_source_events [of e rq] select_resource_resolutions [of e rq "no_fetch rq"]
      select_resource_fetches [of e "snd (default_release e rq)" "template rq" "no_fetch rq"]
    by simp
qed

theorem source_resolved_once_witness:
  "snd (default_release (env0\<lparr>fetched := (\<lambda>r. False)\<rparr>) (request0\<lparr>count := 5\<rparr>)) =
     Some ''11.1-RELEASE'' \<and>
   \<not> fetched (env0\<lparr>fetched := (\<lambda>r. False)\<rparr>) ''11.1-RELEASE'' \<and>
   available (env0\<lparr>fetched := (\<lambda>r. False)\<rparr>) ''11.1-RELEASE'' \<and>
   \<not> no_fetch (request0\<lparr>count := 5\<rparr>) \<and>
   filter is_fetch (fst (cli (env0\<lparr>fetched := (\<lambda>r. False)\<rparr>) (request0\<lparr>count := 5\<rparr>))) =
     [Fetch ''11.1-RELEASE''] \<and>
   length (filter is_resolution
     (fst (cli (env0\<lparr>fetched := (\<lambda>r. False)\<rparr>) (request0\<lparr>count := 5\<rparr>)))) = 1"
proof -
  have h: "snd (default_release (env0\<lparr>fetched := (\<lambda>r. False)\<rparr>) (request0\<lparr>count := 5\<rparr>)) =
     Some ''11.1-RELEASE'' \<and>
   \<not> fetched (env0\<lparr>fetched := (\<lambda>r. False)\<rparr>) ''11.1-RELEASE'' \<and>
   available (env0\<lparr>fetched := (\<lambda>r. False)\<rparr>) ''11.1-RELEASE'' \<and>
   \<not> no_fetch (request0\<lparr>count := 5\<rparr>)"
    by (simp add: default_release_def env0_def request0_def)
  show ?thesis
    using source_resolved_once [of "env0\<lparr>fetched := (\<lambda>r. False)\<rparr>" "request0\<lparr>count := 5\<rparr>"
        "''11.1-RELEASE''"] h
    by blast
qed

text \<open>
  C6. A release that is neither fetched nor available makes the command log that the
  release does not exist and exit with status 1; a release that is available but not
  fetched, under \<^verbatim>\<open>--no-fetch\<close>, makes it log that the release is not downloaded yet
  and exit with status 1. In both cases \<^verbatim>\<open>resource.fetch()\<close> is not called. The
  release is the one given or, with no release and no template, the host's.
\<close>

theorem missing_release_is_not_fetched:
  assumes "snd (default_release e rq) = Some r" and "\<not> fetched e r"
  shows "(\<not> available e r \<longrightarrow>
            cli e rq = (fst (default_release e rq) @
                          [NewReleaseGenerator r, Logged error (ReleaseDoesNotExist r)], Exit 1)) \<and>
         (available e r \<and> no_fetch rq \<longrightarrow>
            cli e rq = (fst (default_release e rq) @
                          [NewReleaseGenerator r, Logged error (ReleaseNotDownloaded r)], Exit 1)) \<and>
         (\<not> available e r \<or> no_fetch rq \<longrightarrow> filter is_fetch (fst (cli e rq)) = [])"
proof -
  obtain tr0 where d: "default_release e rq = (tr0, Some r)"
    using assms(1) by (cases "default_release e rq") simp
  have a: "\<not> available e r \<Longrightarrow>
     cli e rq = (tr0 @ [NewReleaseGenerator r, Logged error (ReleaseDoesNotExist r)], Exit 1)"
    using assms(2) d by (simp add: cli_def prepare_def select_resource_def)
  have b: "available e r \<Longrightarrow> no_fetch rq \<Longrightarrow>
     cli e rq = (tr0 @ [NewReleaseGenerator r, Logged error (ReleaseNotDownloaded r)], Exit 1)"
    using assms(2) d by (simp add: cli_def prepare_def select_resource_def)
  have q: "filter is_fetch tr0 = []"
    using default_release_quiet [of e rq] d by simp
  show ?thesis
    using a b q d by (cases "available e r") auto
qed

theorem missing_release_is_not_fetched_witness:
  "cli (env0\<lparr>fetched := (\<lambda>r. False), available := (\<lambda>r. False)\<rparr>)
       (request0\<lparr>release := Some ''9.9-RELEASE''\<rparr>) =
     ([NewReleaseGenerator ''9.9-RELEASE'', Logged error (ReleaseDoesNotExist ''9.9-RELEASE'')],
      Exit 1) \<and>
   cli (env0\<lparr>fetched := (\<lambda>r. False)\<rparr>)
       (request0\<lparr>release := Some ''12.0-RELEASE'', no_fetch := True\<rparr>) =
     ([NewReleaseGenerator ''12.0-RELEASE'', Logged error (ReleaseNotDownloaded ''12.0-RELEASE'')],
      Exit 1)"
proof -
  let ?e1 = "env0\<lparr>fetched := (\<lambda>r. False), available := (\<lambda>r. False)\<rparr>"
  let ?rq1 = "request0\<lparr>release := Some ''9.9-RELEASE''\<rparr>"
  let ?e2 = "env0\<lparr>fetched := (\<lambda>r. False)\<rparr>"
  let ?rq2 = "request0\<lparr>release := Some ''12.0-RELEASE'', no_fetch := True\<rparr>"
  have d1: "default_release ?e1 ?rq1 = ([], Some ''9.9-RELEASE'')"
    by (simp add: default_release_def request0_def)
  have d2: "default_release ?e2 ?rq2 = ([], Some ''12.0-RELEASE'')"
    by (simp add: default_release_def request0_def)
  have f1: "\<not> fetched ?e1 ''9.9-RELEASE''" and a1: "\<not> available ?e1 ''9.9-RELEASE''"
    by simp_all
  have f2: "\<not> fetched ?e2 ''12.0-RELEASE''"
    and a2: "available ?e2 ''12.0-RELEASE'' \<and> no_fetch ?rq2"
    by (simp_all add: env0_def)
  have "cli ?e1 ?rq1 =
     (fst (default_release ?e1 ?rq1) @
        [NewReleaseGenerator ''9.9-RELEASE'', Logged error (ReleaseDoesNotExist ''9.9-RELEASE'')],
      Exit 1)"
    using missing_release_is_not_fetched [of ?e1 ?rq1 "''9.9-RELEASE''"] d1 f1 a1 by simp
  moreover have "cli ?e2 ?rq2 =
     (fst (default_release ?e2 ?rq2) @
        [NewReleaseGenerator ''12.0-RELEASE'', Logged error (ReleaseNotDownloaded ''12.0-RELEASE'')],
      Exit 1)"
    using missing_release_is_not_fetched [of ?e2 ?rq2 "''12.0-RELEASE''"] d2 f2 a2 by simp
  ultimately show ?thesis
    by (simp add: d1 d2)
qed

text \<open>
  C3, as the claim states it: a request with both a release and a template is rejected
  before any source is resolved. The command accepts such a request: with release
  \<^verbatim>\<open>12.0-RELEASE\<close> and template \<^verbatim>\<open>base\<close> it constructs the release, creates the jail
  from it and exits with status 0.
\<close>

theorem release_and_template_counterexample:
  "cli env0 (request0\<lparr>release := Some ''12.0-RELEASE'', template := Some ''base''\<rparr>) =
     ([NewReleaseGenerator ''12.0-RELEASE'', NewJail 0 [],
       JailCreate 0 (Release ''12.0-RELEASE''),
       Logged log (SuccessfullyCreated ''jail'' ''12.0-RELEASE'' None)],
      Exit 0)"
  by (simp add: cli_def prepare_def default_release_def set_name_def select_resource_def
        set_basejail_def create_all_def suffix_def env0_def request0_def)

text \<open>
  C3, amended: when both a release and a template are given, the release is the source and
  the template is not looked at: the command runs exactly as it does for the same request
  without the template.
\<close>

theorem release_takes_precedence:
  "cli e (rq\<lparr>release := Some r, template := Some t\<rparr>) =
   cli e (rq\<lparr>release := Some r, template := None\<rparr>)"
proof -
  have "prepare e (rq\<lparr>release := Some r, template := Some t\<rparr>) =
        prepare e (rq\<lparr>release := Some r, template := None\<rparr>)"
    by (simp add: prepare_def default_release_def select_resource_def
          split: prod.splits sum.splits)
  then show ?thesis
    by (simp add: cli_def split: prod.splits sum.splits)
qed

subsection \<open>Property tokens\<close>

lemma split_first_at:
  assumes "c \<notin> set k"
  shows "split_first c (k @ c # v) = [k, v]"
proof -
  have ne: "\<And>x. x \<in> set k \<Longrightarrow> x \<noteq> c"
    using assms by auto
  have "takeWhile (\<lambda>x. x \<noteq> c) (k @ c # v) = k"
    using takeWhile_append2 [of k "\<lambda>x. x \<noteq> c" "c # v"] ne by simp
  moreover have "dropWhile (\<lambda>x. x \<noteq> c) (k @ c # v) = c # v"
    using dropWhile_append2 [of k "\<lambda>x. x \<noteq> c" "c # v"] ne by simp
  ultimately show ?thesis
    by (simp add: split_first_def)
qed

lemma split_first_none: "c \<notin> set s \<Longrightarrow> split_first c s = [s]"
  by (simp add: split_first_def)

lemma split_first_some:
  "c \<in> set s \<Longrightarrow> \<exists>k v. split_first c s = [k, v]"
  by (simp add: split_first_def)

lemma set_props_key_value:
  "CHR ''='' \<notin> set k \<Longrightarrow>
   set_props ((k @ CHR ''='' # v) # rest) jd = set_props rest (AList.update k (PStr v) jd)"
  by (simp add: split_first_at)

lemma set_props_malformed:
  "\<forall>p\<in>set ps. CHR ''='' \<in> set p \<Longrightarrow> CHR ''='' \<notin> set tok \<Longrightarrow>
   set_props (ps @ tok # rest) jd = ([Logged error (InvalidProperty tok)], Inl (Exit 1))"
proof (induction ps arbitrary: jd)
  case Nil
  then show ?case by (simp add: split_first_none)
next
  case (Cons p ps)
  then obtain k v where "split_first CHR ''='' p = [k, v]"
    using split_first_some [of "CHR ''=''" p] by auto
  then show ?case using Cons by simp
qed

lemma select_resource_stop:
  "select_resource e rel tmpl nf = (tr, Inl stop) \<Longrightarrow> stop \<noteq> Exit 0"
  by (auto simp: select_resource_def split: option.splits if_splits call_result.splits)

lemma set_basejail_stop:
  "set_basejail b bt jd = (tr, Inl stop) \<Longrightarrow> stop = Exit 1"
  by (auto simp: set_basejail_def Let_def split: option.splits if_splits)

lemma set_props_stop:
  "set_props ps jd = (tr, Inl stop) \<Longrightarrow> stop = Exit 1"
  by (induction ps arbitrary: jd) (auto split: list.splits)

lemma first_malformed:
  "tok \<in> set ps \<Longrightarrow> CHR ''='' \<notin> set tok \<Longrightarrow>
   \<exists>good bad rest. ps = good @ bad # rest \<and> (\<forall>p\<in>set good. CHR ''='' \<in> set p) \<and>
     CHR ''='' \<notin> set bad"
proof (induction ps)
  case Nil
  then show ?case by simp
next
  case (Cons p ps)
  show ?case
  proof (cases "CHR ''='' \<in> set p")
    case False
    then have "p # ps = [] @ p # ps \<and> (\<forall>q\<in>set []. CHR ''='' \<in> set q) \<and> CHR ''='' \<notin> set p"
      by simp
    then show ?thesis by blast
  next
    case True
    then have "tok \<in> set ps" using Cons.prems by auto
    then obtain good bad rest where
      "ps = good @ bad # rest" "\<forall>q\<in>set good. CHR ''='' \<in> set q" "CHR ''='' \<notin> set bad"
      using Cons.IH Cons.prems(2) by blast
    then have "p # ps = (p # good) @ bad # rest \<and> (\<forall>q\<in>set (p # good). CHR ''='' \<in> set q) \<and>
      CHR ''='' \<notin> set bad"
      using True by simp
    then show ?thesis by blast
  qed
qed

lemma malformed_stops:
  assumes "tok \<in> set (props rq)" and "CHR ''='' \<notin> set tok"
  shows "\<exists>stop. prepare e rq = (fst (prepare e rq), Inl stop) \<and> stop \<noteq> Exit 0"
proof -
  obtain good bad rest where g: "props rq = good @ bad # rest"
    "\<forall>p\<in>set good. CHR ''='' \<in> set p" "CHR ''='' \<notin> set bad"
    using first_malformed [OF assms] by blast
  show ?thesis
  proof (cases e rq rule: prepare_cases)
    case (source tr1 stop)
    then show ?thesis using select_resource_stop by fastforce
  next
    case (basejail tr1 res tr2 stop)
    then show ?thesis using set_basejail_stop by fastforce
  next
    case (props tr1 res tr2 jd1 tr3 stop)
    then show ?thesis using set_props_stop by fastforce
  next
    case (ready tr1 res tr2 jd1 tr3 jd2)
    then show ?thesis using set_props_malformed [OF g(2,3), of rest jd1] g(1) by simp
  qed
qed

lemma malformed_after_source:
  assumes "props rq = good @ bad # rest"
    and "\<forall>p\<in>set good. CHR ''='' \<in> set p" and "CHR ''='' \<notin> set bad"
    and "select_resource e (snd (default_release e rq)) (template rq) (no_fetch rq) = (tr1, Inr res)"
    and "set_basejail (basejail rq) (basejail_type rq) (set_name (name rq) []) = (tr2, Inr jd1)"
  shows "cli e rq =
     (fst (default_release e rq) @ tr1 @ tr2 @ [Logged error (InvalidProperty bad)], Exit 1)"
proof -
  have "set_props (props rq) jd1 = ([Logged error (InvalidProperty bad)], Inl (Exit 1))"
    using set_props_malformed [OF assms(2,3)] assms(1) by simp
  then have "prepare e rq =
     (fst (default_release e rq) @ tr1 @ tr2 @ [Logged error (InvalidProperty bad)], Inl (Exit 1))"
    using assms(4,5) by (cases "default_release e rq") (simp add: prepare_def)
  then show ?thesis by (rule cli_stopped)
qed

lemma set_props_well_formed:
  "\<forall>k\<in>fst ` set kvs. CHR ''='' \<notin> set k \<Longrightarrow>
   set_props (map (\<lambda>(k, v). k @ CHR ''='' # v) kvs) jd =
     ([], Inr (foldl (\<lambda>d (k, v). AList.update k (PStr v) d) jd kvs))"
proof (induction kvs arbitrary: jd)
  case Nil
  then show ?case by simp
next
  case (Cons p kvs)
  obtain k v where p: "p = (k, v)" by (cases p)
  then have "CHR ''='' \<notin> set k" using Cons.prems by simp
  then have "set_props ((k @ CHR ''='' # v) # map (\<lambda>(k, v). k @ CHR ''='' # v) kvs) jd =
             set_props (map (\<lambda>(k, v). k @ CHR ''='' # v) kvs) (AList.update k (PStr v) jd)"
    by (rule set_props_key_value)
  then show ?case using Cons p by (simp del: set_props.simps)
qed

lemma map_of_tokens:
  "map_of (foldl (\<lambda>d (k, v). AList.update k (PStr v) d) jd kvs) key =
     (case map_of (rev kvs) key of Some v \<Rightarrow> Some (PStr v) | None \<Rightarrow> map_of jd key)"
proof (induction kvs arbitrary: jd)
  case Nil
  then show ?case by simp
next
  case (Cons p kvs)
  obtain k v where p: "p = (k, v)" by (cases p)
  show ?case
    using Cons [of "AList.update k (PStr v) jd"] p
    by (auto simp: AList.update_conv' map_add_def split: option.splits)
qed

lemma tokens_reach_units:
  assumes "\<forall>k\<in>fst ` set kvs. CHR ''='' \<notin> set k"
    and "props rq = map (\<lambda>(k, v). k @ CHR ''='' # v) kvs"
    and "map_of (rev kvs) key = Some val"
    and "NewJail i jd' \<in> set (fst (cli e rq))"
  shows "map_of jd' key = Some (PStr val)"
proof -
  obtain jd1 tr3 where "set_props (props rq) jd1 = (tr3, Inr jd')"
    using new_jail_prepared [OF assms(4)] by blast
  then have "jd' = foldl (\<lambda>d (k, v). AList.update k (PStr v) d) jd1 kvs"
    using set_props_well_formed [OF assms(1), of jd1] assms(2) by simp
  then show ?thesis using map_of_tokens [of jd1 kvs key] assms(3) by simp
qed

text \<open>
  C7. Tokens \<open>k=v\<close>, where \<open>k\<close> holds no \<^verbatim>\<open>=\<close> (so the cut is at the first one),
  are all accepted, and what they leave is the \<^verbatim>\<open>jail_data\<close> in which each token
  in turn has set property \<open>k\<close> to the text \<open>v\<close>: a property named by some token holds
  the value of the last token that names it, every other property is as it was; and in a
  run of the command every jail that is constructed has these values in its
  \<^verbatim>\<open>jail_data\<close>. A single token \<open>k=v\<close> sets \<open>k\<close> to \<open>v\<close>. The first token without
  \<^verbatim>\<open>=\<close> ends the processing with the error \<^verbatim>\<open>Invalid property\<close> and exit status 1;
  when the source and the basejail options were accepted, that is how the command ends.
  Whenever some token holds no \<^verbatim>\<open>=\<close>, no jail is constructed or created and the exit
  status is not 0.
\<close>

theorem property_tokens:
  "((\<forall>k\<in>fst ` set kvs. CHR ''='' \<notin> set k) \<longrightarrow>
      set_props (map (\<lambda>(k, v). k @ CHR ''='' # v) kvs) jd =
        ([], Inr (foldl (\<lambda>d (k, v). AList.update k (PStr v) d) jd kvs)) \<and>
      map_of (foldl (\<lambda>d (k, v). AList.update k (PStr v) d) jd kvs) key =
        (case map_of (rev kvs) key of Some v \<Rightarrow> Some (PStr v) | None \<Rightarrow> map_of jd key) \<and>
      (props rq = map (\<lambda>(k, v). k @ CHR ''='' # v) kvs \<and> map_of (rev kvs) key = Some val \<and>
       NewJail i jd' \<in> set (fst (cli e rq)) \<longrightarrow> map_of jd' key = Some (PStr val))) \<and>
   (CHR ''='' \<notin> set k \<longrightarrow>
      set_props [k @ CHR ''='' # v] jd = ([], Inr (AList.update k (PStr v) jd)) \<and>
      set_props ((k @ CHR ''='' # v) # toks) jd = set_props toks (AList.update k (PStr v) jd) \<and>
      map_of (AList.update k (PStr v) jd) k = Some (PStr v)) \<and>
   ((\<forall>p\<in>set good. CHR ''='' \<in> set p) \<and> CHR ''='' \<notin> set bad \<longrightarrow>
      set_props (good @ bad # rest) jd = ([Logged error (InvalidProperty bad)], Inl (Exit 1)) \<and>
      (props rq = good @ bad # rest \<and>
       select_resource e (snd (default_release e rq)) (template rq) (no_fetch rq) = (tr1, Inr res) \<and>
       set_basejail (basejail rq) (basejail_type rq) (set_name (name rq) []) = (tr2, Inr jd1) \<longrightarrow>
       cli e rq =
         (fst (default_release e rq) @ tr1 @ tr2 @ [Logged error (InvalidProperty bad)], Exit 1))) \<and>
   (tok \<in> set (props rq) \<and> CHR ''='' \<notin> set tok \<longrightarrow>
      filter is_unit_event (fst (cli e rq)) = [] \<and> snd (cli e rq) \<noteq> Exit 0)"
proof -
  have w: "(\<forall>k\<in>fst ` set kvs. CHR ''='' \<notin> set k) \<longrightarrow>
      set_props (map (\<lambda>(k, v). k @ CHR ''='' # v) kvs) jd =
        ([], Inr (foldl (\<lambda>d (k, v). AList.update k (PStr v) d) jd kvs)) \<and>
      map_of (foldl (\<lambda>d (k, v). AList.update k (PStr v) d) jd kvs) key =
        (case map_of (rev kvs) key of Some v \<Rightarrow> Some (PStr v) | None \<Rightarrow> map_of jd key) \<and>
      (props rq = map (\<lambda>(k, v). k @ CHR ''='' # v) kvs \<and> map_of (rev kvs) key = Some val \<and>
       NewJail i jd' \<in> set (fst (cli e rq)) \<longrightarrow> map_of jd' key = Some (PStr val))"
    using set_props_well_formed [of kvs jd] map_of_tokens [of jd kvs key]
      tokens_reach_units [of kvs rq key val i jd' e]
    by (intro impI conjI) simp_all
  have a: "CHR ''='' \<notin> set k \<longrightarrow>
      set_props [k @ CHR ''='' # v] jd = ([], Inr (AList.update k (PStr v) jd)) \<and>
      set_props ((k @ CHR ''='' # v) # toks) jd = set_props toks (AList.update k (PStr v) jd) \<and>
      map_of (AList.update k (PStr v) jd) k = Some (PStr v)"
    using set_props_key_value [of k v toks jd] set_props_key_value [of k v "[]" jd]
    by (simp add: AList.update_conv' del: set_props.simps) simp
  have c: "tok \<in> set (props rq) \<and> CHR ''='' \<notin> set tok \<longrightarrow>
      filter is_unit_event (fst (cli e rq)) = [] \<and> snd (cli e rq) \<noteq> Exit 0"
  proof
    assume "tok \<in> set (props rq) \<and> CHR ''='' \<notin> set tok"
    then obtain stop where s: "prepare e rq = (fst (prepare e rq), Inl stop)" "stop \<noteq> Exit 0"
      using malformed_stops by blast
    then have "cli e rq = (fst (prepare e rq), stop)"
      using cli_stopped by blast
    then show "filter is_unit_event (fst (cli e rq)) = [] \<and> snd (cli e rq) \<noteq> Exit 0"
      using s(2) prepare_quiet [of e rq] by simp
  qed
  have b: "(\<forall>p\<in>set good. CHR ''='' \<in> set p) \<and> CHR ''='' \<notin> set bad \<longrightarrow>
      set_props (good @ bad # rest) jd = ([Logged error (InvalidProperty bad)], Inl (Exit 1)) \<and>
      (props rq = good @ bad # rest \<and>
       select_resource e (snd (default_release e rq)) (template rq) (no_fetch rq) = (tr1, Inr res) \<and>
       set_basejail (basejail rq) (basejail_type rq) (set_name (name rq) []) = (tr2, Inr jd1) \<longrightarrow>
       cli e rq =
         (fst (default_release e rq) @ tr1 @ tr2 @ [Logged error (InvalidProperty bad)], Exit 1))"
    using set_props_malformed [of good bad rest jd]
      malformed_after_source [of rq good bad rest e tr1 res tr2 jd1]
    by blast
  show ?thesis using w a b c by (intro conjI)
qed

theorem property_tokens_witness:
  "set_props [''tag=web01''] [] = ([], Inr [(''tag'', PStr ''web01'')]) \<and>
   set_props [''tag=web01'', ''boot=on'', ''tag=db02''] [(''name'', PStr ''a'')] =
     ([], Inr [(''name'', PStr ''a''), (''tag'', PStr ''db02''), (''boot'', PStr ''on'')]) \<and>
   NewJail 0 [(''tag'', PStr ''web01'')] \<in>
     set (fst (cli env0 (request0\<lparr>props := [''tag=web01'']\<rparr>))) \<and>
   map_of [(''tag'', PStr ''web01'')] ''tag'' = Some (PStr ''web01'') \<and>
   set_props [''tag''] [] = ([Logged error (InvalidProperty ''tag'')], Inl (Exit 1)) \<and>
   cli env0 (request0\<lparr>props := [''tag=web01'', ''tag'']\<rparr>) =
     ([Logged spam (NoReleaseSelected ''11.1-RELEASE''), NewReleaseGenerator ''11.1-RELEASE'',
       Logged error (InvalidProperty ''tag'')], Exit 1)"
proof -
  let ?rq = "request0\<lparr>props := [''tag=web01'', ''tag'']\<rparr>"
  let ?rq1 = "request0\<lparr>props := [''tag=web01'']\<rparr>"
  let ?kvs1 = "[(''tag'', ''web01'')]"
  let ?kvs3 = "[(''tag'', ''web01''), (''boot'', ''on''), (''tag'', ''db02'')]"
  have k1: "\<forall>k\<in>fst ` set ?kvs1. CHR ''='' \<notin> set k" by simp
  have k3: "\<forall>k\<in>fst ` set ?kvs3. CHR ''='' \<notin> set k" by simp
  have g: "(\<forall>p\<in>set [''tag=web01'']. CHR ''='' \<in> set p) \<and> CHR ''='' \<notin> set ''tag''"
    by simp
  have g0: "(\<forall>p\<in>set ([] :: string list). CHR ''='' \<in> set p) \<and> CHR ''='' \<notin> set ''tag''"
    by simp
  have p: "props ?rq = [''tag=web01''] @ ''tag'' # []" by simp
  have p1: "props ?rq1 = map (\<lambda>(k, v). k @ CHR ''='' # v) ?kvs1" by simp
  have l1: "map_of (rev ?kvs1) ''tag'' = Some ''web01''" by simp
  have d: "default_release env0 ?rq =
     ([Logged spam (NoReleaseSelected ''11.1-RELEASE'')], Some ''11.1-RELEASE'')"
    by (simp add: default_release_def env0_def request0_def)
  have s: "select_resource env0 (snd (default_release env0 ?rq)) (template ?rq) (no_fetch ?rq) =
     ([NewReleaseGenerator ''11.1-RELEASE''], Inr (Release ''11.1-RELEASE''))"
    unfolding d by (simp add: select_resource_def env0_def)
  have b: "set_basejail (basejail ?rq) (basejail_type ?rq) (set_name (name ?rq) []) = ([], Inr [])"
    by (simp add: set_basejail_def set_name_def request0_def)
  have j: "NewJail 0 [(''tag'', PStr ''web01'')] \<in> set (fst (cli env0 ?rq1))"
    by (simp add: cli_def prepare_def default_release_def set_name_def select_resource_def
        set_basejail_def create_all_def suffix_def env0_def request0_def split_first_def)
  have 1: "set_props (map (\<lambda>(k, v). k @ CHR ''='' # v) ?kvs1) [] =
        ([], Inr (foldl (\<lambda>d (k, v). AList.update k (PStr v) d) [] ?kvs1))"
    using property_tokens [where kvs = ?kvs1 and jd = "[]"] k1 by blast
  have 2: "set_props (map (\<lambda>(k, v). k @ CHR ''='' # v) ?kvs3) [(''name'', PStr ''a'')] =
        ([], Inr (foldl (\<lambda>d (k, v). AList.update k (PStr v) d) [(''name'', PStr ''a'')] ?kvs3))"
    using property_tokens [where kvs = ?kvs3 and jd = "[(''name'', PStr ''a'')]"] k3 by blast
  have 3: "map_of [(''tag'', PStr ''web01'')] ''tag'' = Some (PStr ''web01'')"
    using property_tokens [where kvs = ?kvs1 and rq = ?rq1 and key = "''tag''"
        and val = "''web01''" and i = 0 and jd' = "[(''tag'', PStr ''web01'')]" and e = env0]
      k1 p1 l1 j by blast
  have 4: "set_props ([] @ ''tag'' # []) [] = ([Logged error (InvalidProperty ''tag'')], Inl (Exit 1))"
    using property_tokens [where good = "[]" and bad = "''tag''" and rest = "[]" and jd = "[]"] g0
    by blast
  have 5: "cli env0 ?rq =
     (fst (default_release env0 ?rq) @ [NewReleaseGenerator ''11.1-RELEASE''] @ [] @
        [Logged error (InvalidProperty ''tag'')], Exit 1)"
    using property_tokens [where good = "[''tag=web01'']" and bad = "''tag''" and rest = "[]"
        and rq = ?rq and e = env0 and ?tr1.0 = "[NewReleaseGenerator ''11.1-RELEASE'']"
        and res = "Release ''11.1-RELEASE''" and ?tr2.0 = "[]" and ?jd1.0 = "[]"]
      g p s b by blast
  show ?thesis
    using 1 2 3 4 5 j by (simp add: d del: set_props.simps)
qed

subsection \<open>The explicit name\<close>

lemma set_props_keeps:
  "set_props ps jd = (tr, Inr jd') \<Longrightarrow>
   \<forall>p\<in>set ps. hd (split_first CHR ''='' p) \<noteq> k \<Longrightarrow> map_of jd' k = map_of jd k"
proof (induction ps arbitrary: jd)
  case Nil
  then show ?case by simp
next
  case (Cons p ps)
  then show ?case
    by (auto simp: AList.update_conv' split: list.splits)
qed

lemma set_basejail_keeps:
  "set_basejail b bt jd = (tr, Inr jd') \<Longrightarrow> map_of jd' ''name'' = map_of jd ''name''"
  by (auto simp: set_basejail_def Let_def AList.update_conv' split: option.splits if_splits)

lemma prepare_ignores_count: "prepare e (rq\<lparr>count := n\<rparr>) = prepare e rq"
  by (simp add: prepare_def default_release_def split: prod.splits sum.splits)

lemma new_jail_name:
  assumes "name rq = Some t" and "t \<noteq> []"
    and "\<forall>p\<in>set (props rq). hd (split_first CHR ''='' p) \<noteq> ''name''"
    and "NewJail i jd \<in> set (fst (cli e rq))"
  shows "map_of jd ''name'' = Some (PStr t)"
proof -
  have not_prep: "NewJail i jd \<notin> set (fst (prepare e rq))"
  proof
    assume "NewJail i jd \<in> set (fst (prepare e rq))"
    then have "NewJail i jd \<in> set (filter is_unit_event (fst (prepare e rq)))" by simp
    then show False using prepare_quiet [of e rq] by simp
  qed
  show ?thesis
  proof (cases e rq rule: prepare_cases)
    case (source tr1 stop)
    then show ?thesis using cli_stopped [of e rq] assms(4) not_prep by simp
  next
    case (basejail tr1 res tr2 stop)
    then show ?thesis using cli_stopped [of e rq] assms(4) not_prep by simp
  next
    case (props tr1 res tr2 jd1 tr3 stop)
    then show ?thesis using cli_stopped [of e rq] assms(4) not_prep by simp
  next
    case (ready tr1 res tr2 jd1 tr3 jd2)
    then have "NewJail i jd \<in> set (fst (create_units e res jd2 (count rq) False [0..<nat (count rq)]))"
      using cli_prepared [of e rq _ res jd2] assms(4) not_prep by auto
    then have "jd = jd2" by (rule create_units_jail_data)
    moreover have "map_of jd2 ''name'' = map_of jd1 ''name''"
      using set_props_keeps [OF ready(3) assms(3)] .
    moreover have "map_of jd1 ''name'' = map_of (set_name (name rq) []) ''name''"
      using set_basejail_keeps [OF ready(2)] .
    moreover have "map_of (set_name (name rq) []) ''name'' = Some (PStr t)"
      using assms(1,2) by (simp add: set_name_def)
    ultimately show ?thesis by simp
  qed
qed

text \<open>
  C9, as the claim states it: a request with an explicit name and a count above 1 is not
  valid, and the name is not applied to several units. The command accepts name \<^verbatim>\<open>web\<close>
  with count 2: both units are constructed from a \<^verbatim>\<open>jail_data\<close> that holds the name,
  both are created and the exit status is 0.
\<close>

theorem explicit_name_counterexample:
  "cli env0 (request0\<lparr>name := Some ''web'', count := 2\<rparr>) =
     ([Logged spam (NoReleaseSelected ''11.1-RELEASE''), NewReleaseGenerator ''11.1-RELEASE'',
       NewJail 0 [(''name'', PStr ''web'')], JailCreate 0 (Release ''11.1-RELEASE''),
       Logged log (SuccessfullyCreated ''jail'' ''11.1-RELEASE'' (Some (0, 2))),
       NewJail 1 [(''name'', PStr ''web'')], JailCreate 1 (Release ''11.1-RELEASE''),
       Logged log (SuccessfullyCreated ''jaili'' ''11.1-RELEASE'' (Some (1, 2)))],
      Exit 0)"
proof -
  have u: "[0..<2] = [0, 1]" by (simp add: upt_conv_Cons)
  show ?thesis
    by (simp add: cli_def prepare_def default_release_def set_name_def select_resource_def
        set_basejail_def create_all_def suffix_def env0_def request0_def u)
qed

text \<open>
  C9, amended: a request may carry an explicit name with any count. The steps before the
  loop do not read the count, so a request is accepted or rejected alike for every count;
  and when the name is given and not empty, and no property token assigns \<^verbatim>\<open>name\<close>,
  every jail the run constructs has the explicit name in its \<^verbatim>\<open>jail_data\<close>.
\<close>

theorem explicit_name_with_any_count:
  "prepare e (rq\<lparr>count := n\<rparr>) = prepare e rq \<and>
   (name rq = Some t \<and> t \<noteq> [] \<and>
    (\<forall>p\<in>set (props rq). hd (split_first CHR ''='' p) \<noteq> ''name'') \<and>
    NewJail i jd \<in> set (fst (cli e rq)) \<longrightarrow> map_of jd ''name'' = Some (PStr t))"
  using prepare_ignores_count [where e = e and rq = rq and n = n] new_jail_name [where rq = rq and t = t and i = i and jd = jd and e = e] by blast

theorem explicit_name_with_any_count_witness:
  "name (request0\<lparr>name := Some ''web'', count := 2\<rparr>) = Some ''web'' \<and>
   NewJail 1 [(''name'', PStr ''web'')] \<in>
     set (fst (cli env0 (request0\<lparr>name := Some ''web'', count := 2\<rparr>))) \<and>
   map_of [(''name'', PStr ''web'')] ''name'' = Some (PStr ''web'')"
proof -
  let ?rq = "request0\<lparr>name := Some ''web'', count := 2\<rparr>"
  have u: "[0..<2] = [0, 1]" by (simp add: upt_conv_Cons)
  have n: "name ?rq = Some ''web'' \<and> ''web'' \<noteq> []" by simp
  have p: "\<forall>p\<in>set (props ?rq). hd (split_first CHR ''='' p) \<noteq> ''name''"
    by (simp add: request0_def)
  have j: "NewJail 1 [(''name'', PStr ''web'')] \<in> set (fst (cli env0 ?rq))"
    by (simp add: cli_def prepare_def default_release_def set_name_def select_resource_def
        set_basejail_def create_all_def suffix_def env0_def request0_def u)
  show ?thesis
    using explicit_name_with_any_count [where e = env0 and rq = ?rq and t = "''web''" and i = 1
        and jd = "[(''name'', PStr ''web'')]"] n p j
    by blast
qed

subsection \<open>The count\<close>
















section \<open>Properties of the JSON configuration file\<close>

subsection \<open>Strings\<close>

lemma of_char_lt_256: "(of_char c :: nat) < 256"
  by (metis of_char_mod_256 mod_less_divisor zero_less_numeral)

lemma hex_value_digit: "n < 16 \<Longrightarrow> hex_value (hex_digit n) = Some n"
  by (simp add: hex_value_def hex_digit_def Let_def)

lemma hex_value_zero: "hex_value CHR ''0'' = Some 0"
  by (simp add: hex_value_def)

lemma unicode_escape_byte:
  "unicode_escape CHR ''0'' CHR ''0'' (hex_digit ((of_char c :: nat) div 16))
     (hex_digit ((of_char c :: nat) mod 16)) = Some c"
proof -
  let ?n = "of_char c :: nat"
  have "?n div 16 < 16" using of_char_lt_256 [of c] by arith
  then have 1: "hex_value (hex_digit (?n div 16)) = Some (?n div 16)"
    by (rule hex_value_digit)
  have 2: "hex_value (hex_digit (?n mod 16)) = Some (?n mod 16)"
    by (rule hex_value_digit) simp
  have "?n div 16 * 16 + ?n mod 16 = ?n" by simp
  then show ?thesis
    using of_char_lt_256 [of c] by (simp add: unicode_escape_def hex_value_zero 1 2)
qed

lemma scan_string_escape:
  "scan_string (escape_char c @ rest) = map_option (\<lambda>(s, t). (c # s, t)) (scan_string rest)"
proof -
  consider (quote) "c = CHR 0x22" | (backslash) "c = CHR 0x5C"
    | (short) "c \<in> {CHR 0x0A, CHR 0x0D, CHR 0x09, CHR 0x08, CHR 0x0C}"
    | (plain) "c \<noteq> CHR 0x22" "c \<noteq> CHR 0x5C"
        "c \<notin> {CHR 0x0A, CHR 0x0D, CHR 0x09, CHR 0x08, CHR 0x0C}"
        "32 \<le> (of_char c :: nat) \<and> (of_char c :: nat) \<le> 126"
    | (other) "c \<noteq> CHR 0x22" "c \<noteq> CHR 0x5C"
        "c \<notin> {CHR 0x0A, CHR 0x0D, CHR 0x09, CHR 0x08, CHR 0x0C}"
        "\<not> (32 \<le> (of_char c :: nat) \<and> (of_char c :: nat) \<le> 126)"
    by blast
  then show ?thesis
  proof cases
    case quote
    then show ?thesis by (simp add: escape_char_def unescape_def)
  next
    case backslash
    then show ?thesis by (simp add: escape_char_def unescape_def)
  next
    case short
    then show ?thesis by (auto simp: escape_char_def unescape_def)
  next
    case plain
    then show ?thesis by (simp add: escape_char_def)
  next
    case other
    then show ?thesis by (simp add: escape_char_def unicode_escape_byte)
  qed
qed

lemma scan_string_encoded:
  "scan_string (concat (map escape_char s) @ CHR 0x22 # rest) = Some (s, rest)"
  by (induction s) (simp_all add: scan_string_escape del: scan_string.simps(2), simp)

subsection \<open>Integers\<close>

lemma decimal_snoc: "decimal (ds @ [d]) = decimal ds * 10 + digit_value d"
  by (simp add: decimal_def)

lemma digit_char: "d < 10 \<Longrightarrow> py_isdigit (char_of (48 + d)) \<and> digit_value (char_of (48 + d)) = d"
  by (simp add: py_isdigit_def digit_value_def)

lemma show_nat_digits: "\<forall>c\<in>set (show_nat n). py_isdigit c"
proof (induction n rule: show_nat.induct)
  case (1 n)
  show ?case
  proof (cases "n < 10")
    case True
    then show ?thesis using digit_char [of n] by (subst show_nat.simps) simp
  next
    case False
    then show ?thesis
      using 1 digit_char [of "n mod 10"] by (subst show_nat.simps) simp
  qed
qed

lemma show_nat_nonempty: "show_nat n \<noteq> []"
  by (subst show_nat.simps) simp

lemma decimal_show_nat: "decimal (show_nat n) = n"
proof (induction n rule: show_nat.induct)
  case (1 n)
  show ?case
  proof (cases "n < 10")
    case True
    then show ?thesis using digit_char [of n] by (subst show_nat.simps) (simp add: decimal_def)
  next
    case False
    then have "decimal (show_nat n) = decimal (show_nat (n div 10)) * 10 + n mod 10"
      using digit_char [of "n mod 10"] by (subst show_nat.simps) (simp add: decimal_snoc)
    then show ?thesis using 1 False by simp
  qed
qed

lemma show_nat_leading: "0 < n \<Longrightarrow> hd (show_nat n) \<noteq> CHR ''0''"
proof (induction n rule: show_nat.induct)
  case (1 n)
  show ?case
  proof (cases "n < 10")
    case True
    then have "digit_value (hd (show_nat n)) = n"
      using digit_char [of n] by (subst show_nat.simps) simp
    then show ?thesis using "1.prems" by (auto simp: digit_value_def)
  next
    case False
    then have "hd (show_nat n) = hd (show_nat (n div 10))"
      using show_nat_nonempty [of "n div 10"] by (subst show_nat.simps) simp
    then show ?thesis using 1 False by simp
  qed
qed

lemma show_nat_zero: "length (show_nat 0) = 1"
  by (subst show_nat.simps) simp

lemma scan_nat_show:
  assumes "ends_number rest"
  shows "scan_nat (show_nat n @ rest) = Some (n, rest)"
proof -
  have nd: "rest = [] \<or> \<not> py_isdigit (hd rest)"
    using assms by (auto simp: ends_number_def py_isdigit_def split: list.splits)
  have tw: "takeWhile py_isdigit (show_nat n @ rest) = show_nat n"
    using nd show_nat_digits [of n]
    by (cases rest) (simp_all add: takeWhile_append2)
  have dw: "dropWhile py_isdigit (show_nat n @ rest) = rest"
    using nd show_nat_digits [of n]
    by (cases rest) (simp_all add: dropWhile_append2)
  have lead: "\<not> (hd (show_nat n) = CHR ''0'' \<and> length (show_nat n) > 1)"
  proof (cases "n = 0")
    case True
    then show ?thesis using show_nat_zero by simp
  next
    case False
    then show ?thesis using show_nat_leading [of n] by simp
  qed
  show ?thesis
    unfolding scan_nat_def tw dw Let_def
    using assms lead show_nat_nonempty [of n]
    by (auto simp: decimal_show_nat ends_number_def split: list.splits)
qed

lemma show_nat_hd_digit: "py_isdigit (hd (show_nat n))"
  using show_nat_digits [of n] show_nat_nonempty [of n] by (cases "show_nat n") simp_all

lemma scan_number_show:
  assumes "ends_number rest"
  shows "scan_number (show_int i @ rest) = Some (i, rest)"
proof (cases "i < 0")
  case True
  then show ?thesis
    using scan_nat_show [OF assms, of "nat (- i)"] by (simp add: scan_number_def show_int_def)
next
  case False
  obtain c cs where s: "show_nat (nat i) = c # cs"
    using show_nat_nonempty [of "nat i"] by (cases "show_nat (nat i)") auto
  then have "py_isdigit c" using show_nat_hd_digit [of "nat i"] by simp
  then have "c \<noteq> CHR ''-''" by (auto simp: py_isdigit_def)
  then show ?thesis
    using scan_nat_show [OF assms, of "nat i"] False s
    by (simp add: scan_number_def show_int_def)
qed

subsection \<open>Values and members\<close>

lemma encode_string_scan:
  "encode_string s @ rest = CHR 0x22 # concat (map escape_char s) @ CHR 0x22 # rest"
  by (simp add: encode_string_def)

lemma show_int_first:
  "\<exists>c cs. show_int i = c # cs \<and> (c = CHR ''-'' \<or> py_isdigit c)"
proof (cases "i < 0")
  case True
  then show ?thesis by (simp add: show_int_def)
next
  case False
  then show ?thesis
    using show_nat_hd_digit [of "nat i"] show_nat_nonempty [of "nat i"]
    by (cases "show_nat (nat i)") (simp_all add: show_int_def)
qed

lemma scan_value_encoded:
  assumes "ends_number rest"
  shows "scan_value (encode_value v @ rest) = Some (v, rest)"
proof (cases v)
  case (VString s)
  then show ?thesis
    by (simp add: scan_value_def encode_string_scan scan_string_encoded del: scan_string.simps)
next
  case (VBool b)
  then show ?thesis by (cases b) (simp_all add: scan_value_def)
next
  case (VInt i)
  obtain c cs where c: "show_int i = c # cs" "c = CHR ''-'' \<or> py_isdigit c"
    using show_int_first by blast
  then have ne: "c \<noteq> CHR 0x22 \<and> c \<noteq> CHR ''t'' \<and> c \<noteq> CHR ''f''"
    by (auto simp: py_isdigit_def)
  have "scan_value (show_int i @ rest) = map_option (\<lambda>(i, t). (VInt i, t)) (scan_number (show_int i @ rest))"
    using c(1) ne by (simp add: scan_value_def)
  then show ?thesis using VInt scan_number_show [OF assms] by simp
qed

lemma encode_value_first: "\<exists>c cs. encode_value v = c # cs \<and> \<not> is_ws c"
proof (cases v)
  case (VString s)
  then show ?thesis by (simp add: encode_string_def is_ws_def)
next
  case (VBool b)
  then show ?thesis by (cases b) (simp_all add: is_ws_def)
next
  case (VInt i)
  then show ?thesis
    using show_int_first [of i] by (auto simp: is_ws_def py_isdigit_def)
qed

lemma skip_ws_value: "skip_ws (CHR '' '' # encode_value v @ rest) = encode_value v @ rest"
  using encode_value_first [of v] by (auto simp: skip_ws_def is_ws_def)

lemma encode_members_first:
  "d \<noteq> [] \<Longrightarrow> \<exists>cs. encode_members d = CHR 0x22 # cs"
  by (induction d rule: encode_members.induct) (simp_all add: encode_string_def)

lemma skip_ws_quote: "skip_ws (CHR 0x22 # cs) = CHR 0x22 # cs"
  by (simp add: skip_ws_def is_ws_def)

lemma scan_members_step:
  assumes "scan_string r = Some (k, r1)" and "skip_ws r1 = CHR '':'' # r2"
    and "scan_value (skip_ws r2) = Some (v, r3)" and "skip_ws r3 = d # r4"
  shows "scan_members acc (CHR 0x22 # r) =
     (if d = CHR ''}'' then Some (AList.update k v acc, r4)
      else if d = CHR '','' then
        (if length (skip_ws r4) < length (CHR 0x22 # r)
         then scan_members (AList.update k v acc) (skip_ws r4) else None)
      else None)"
  by (subst scan_members.simps) (simp add: assms del: scan_string.simps scan_members.simps)

lemma scan_member_last:
  "scan_members acc (encode_string k @ '': '' @ encode_value v @ CHR ''}'' # rest) =
     Some (AList.update k v acc, rest)"
proof -
  let ?r3 = "CHR ''}'' # rest"
  let ?r2 = "CHR '' '' # encode_value v @ ?r3"
  let ?r1 = "CHR '':'' # ?r2"
  let ?r = "concat (map escape_char k) @ CHR 0x22 # ?r1"
  have e: "ends_number ?r3" by (simp add: ends_number_def)
  have 1: "scan_string ?r = Some (k, ?r1)"
    by (rule scan_string_encoded)
  have 2: "skip_ws ?r1 = CHR '':'' # ?r2"
    by (simp add: skip_ws_def is_ws_def)
  have 3: "scan_value (skip_ws ?r2) = Some (v, ?r3)"
    using scan_value_encoded [OF e] by (simp add: skip_ws_value)
  have 4: "skip_ws ?r3 = CHR ''}'' # rest"
    by (simp add: skip_ws_def is_ws_def)
  have "encode_string k @ '': '' @ encode_value v @ CHR ''}'' # rest = CHR 0x22 # ?r"
    by (simp add: encode_string_def)
  then show ?thesis
    using scan_members_step [OF 1 2 3 4, of acc] by (simp del: scan_members.simps)
qed

lemma scan_member_next:
  assumes "following = CHR 0x22 # cs"
  shows "scan_members acc (encode_string k @ '': '' @ encode_value v @ '', '' @ following) =
     scan_members (AList.update k v acc) following"
proof -
  let ?r4 = "CHR '' '' # following"
  let ?r3 = "CHR '','' # ?r4"
  let ?r2 = "CHR '' '' # encode_value v @ ?r3"
  let ?r1 = "CHR '':'' # ?r2"
  let ?r = "concat (map escape_char k) @ CHR 0x22 # ?r1"
  have e: "ends_number ?r3" by (simp add: ends_number_def)
  have 1: "scan_string ?r = Some (k, ?r1)"
    by (rule scan_string_encoded)
  have 2: "skip_ws ?r1 = CHR '':'' # ?r2"
    by (simp add: skip_ws_def is_ws_def)
  have 3: "scan_value (skip_ws ?r2) = Some (v, ?r3)"
    using scan_value_encoded [OF e] by (simp add: skip_ws_value)
  have 4: "skip_ws ?r3 = CHR '','' # ?r4"
    by (simp add: skip_ws_def is_ws_def)
  have 5: "skip_ws ?r4 = following"
    using assms by (simp add: skip_ws_def is_ws_def)
  have 6: "length following < length (CHR 0x22 # ?r)"
    by simp
  have "encode_string k @ '': '' @ encode_value v @ '', '' @ following = CHR 0x22 # ?r"
    by (simp add: encode_string_def)
  then show ?thesis
    using scan_members_step [OF 1 2 3 4, of acc] 5 6 by (simp del: scan_members.simps)
qed

lemma scan_members_encoded:
  "d \<noteq> [] \<Longrightarrow>
   scan_members acc (encode_members d @ CHR ''}'' # rest) =
     Some (foldl (\<lambda>a (k, v). AList.update k v a) acc d, rest)"
proof (induction d arbitrary: acc rule: encode_members.induct)
  case 1
  then show ?case by simp
next
  case (2 k v)
  then show ?case
    using scan_member_last [of acc k v rest] by (simp del: scan_members.simps)
next
  case (3 k v m ms)
  obtain cs where m: "encode_members (m # ms) = CHR 0x22 # cs"
    using encode_members_first [of "m # ms"] by auto
  have "scan_members acc (encode_members ((k, v) # m # ms) @ CHR ''}'' # rest) =
        scan_members (AList.update k v acc) (encode_members (m # ms) @ CHR ''}'' # rest)"
    using scan_member_next [of "encode_members (m # ms) @ CHR ''}'' # rest" "cs @ CHR ''}'' # rest" acc k v] m
    by (simp del: scan_members.simps)
  then show ?case using 3 by (simp del: scan_members.simps)
qed

lemma update_fresh: "k \<notin> fst ` set al \<Longrightarrow> AList.update k v al = al @ [(k, v)]"
  by (induction al) auto

lemma foldl_update_distinct:
  "distinct (map fst d) \<Longrightarrow> fst ` set d \<inter> fst ` set acc = {} \<Longrightarrow>
   foldl (\<lambda>a (k, v). AList.update k v a) acc d = acc @ d"
proof (induction d arbitrary: acc)
  case Nil
  then show ?case by simp
next
  case (Cons p d)
  obtain k v where p: "p = (k, v)" by (cases p)
  have "k \<notin> fst ` set acc" using Cons.prems(2) p by auto
  then have u: "AList.update k v acc = acc @ [(k, v)]" by (rule update_fresh)
  have "fst ` set d \<inter> fst ` set (acc @ [(k, v)]) = {}"
    using Cons.prems p by auto
  then have "foldl (\<lambda>a (k, v). AList.update k v a) (acc @ [(k, v)]) d = (acc @ [(k, v)]) @ d"
    using Cons.IH Cons.prems(1) by simp
  then show ?case using p u by simp
qed

text \<open>
  C4. For every store of text, booleans and integers whose property names are unique (as
  the keys of a dict are), decoding the encoding gives the store back:
  \<^verbatim>\<open>map_input\<close> of the text \<^verbatim>\<open>map_output\<close> writes is the store itself, with its
  members in their order.
\<close>

theorem round_trip:
  assumes "distinct (map fst s)"
  shows "map_input (map_output s) = Some s"
proof (cases "s = []")
  case True
  then show ?thesis
    by (simp add: map_input_def map_output_def to_json_def json_load_def skip_ws_def is_ws_def)
next
  case False
  then obtain cs where m: "encode_members s = CHR 0x22 # cs"
    using encode_members_first by blast
  have 1: "skip_ws (to_json s) = CHR ''{'' # encode_members s @ ''}''"
    by (simp add: to_json_def skip_ws_def is_ws_def)
  have 2: "dropWhile is_ws (encode_members s @ ''}'') = CHR 0x22 # cs @ ''}''"
    using m by (simp add: is_ws_def)
  have "scan_members [] (encode_members s @ CHR ''}'' # []) =
          Some (foldl (\<lambda>a (k, v). AList.update k v a) [] s, [])"
    using False by (rule scan_members_encoded)
  then have 3: "scan_members [] (CHR 0x22 # cs @ ''}'') = Some (s, [])"
    using foldl_update_distinct [OF assms, of "[]"] m by simp
  show ?thesis
    unfolding map_input_def map_output_def json_load_def 1
    by (simp add: 2 3 skip_ws_def del: scan_members.simps)
qed

theorem round_trip_witness:
  "map_input (map_output [(''tag'', VString ''web01''), (''boot'', VBool True),
       (''priority'', VInt (- 3))]) =
     Some [(''tag'', VString ''web01''), (''boot'', VBool True), (''priority'', VInt (- 3))]"
proof -
  have "distinct (map fst [(''tag'', VString ''web01''), (''boot'', VBool True),
       (''priority'', VInt (- 3))])"
    by simp
  then show ?thesis by (rule round_trip)
qed

end
